theory Spec2Isabelle
  imports Complex_Main
begin

section \<open>Sliding-window rate limiter (src/core/rate_limiter.py)\<close>

text \<open>
  The limiter keeps, for every identifier, a list of \<open>(timestamp, count)\<close> pairs in a
  \<open>defaultdict(list)\<close>. Timestamps are readings of \<open>time.time()\<close> (seconds, here exact
  reals); counts, limits and window sizes are Python integers. The clock is read twice
  during one call of \<open>check_rate_limit\<close>: once at its first line and once more inside
  \<open>_clean_old_requests\<close>; both readings are parameters of the model.
\<close>

type_synonym entry = "real \<times> int"
type_synonym requests = "string \<rightharpoonup> entry list"

text \<open>Python's \<open>int(x)\<close> on a float truncates towards zero.\<close>

definition py_int :: "real \<Rightarrow> int" where
  "py_int x = (if 0 \<le> x then \<lfloor>x\<rfloor> else \<lceil>x\<rceil>)"

text \<open>
  \<open>_clean_old_requests\<close>: one \<open>with self._lock\<close> block. An identifier that is present
  keeps the entries with \<open>ts > cutoff_time\<close> and is deleted when none is left.
\<close>

definition clean_old_requests :: "real \<Rightarrow> string \<Rightarrow> int \<Rightarrow> requests \<Rightarrow> requests" where
  "clean_old_requests current_time identifier window_seconds reqs =
     (let cutoff_time = current_time - real_of_int window_seconds in
      case reqs identifier of
        None \<Rightarrow> reqs
      | Some es \<Rightarrow>
          (let kept = filter (\<lambda>(ts, count). ts > cutoff_time) es in
           if kept = [] then reqs(identifier := None) else reqs(identifier \<mapsto> kept)))"

text \<open>
  The second \<open>with self._lock\<close> block of \<open>check_rate_limit\<close>. Reading
  \<open>self._requests[identifier]\<close> on the defaultdict inserts an empty list for a missing
  identifier. The result is the pair \<open>(is_allowed, retry_after)\<close>.
\<close>

definition check_locked ::
  "real \<Rightarrow> string \<Rightarrow> int \<Rightarrow> int \<Rightarrow> requests \<Rightarrow> (bool \<times> int option) \<times> requests" where
  "check_locked current_time identifier max_requests window_seconds reqs =
     (let es = (case reqs identifier of None \<Rightarrow> [] | Some es \<Rightarrow> es);
          reqs' = reqs(identifier \<mapsto> es);
          request_count = sum_list (map snd es)
      in if request_count \<ge> max_requests then
           (if es \<noteq> [] then
              (let oldest_timestamp = Min (set (map fst es));
                   retry_after =
                     py_int (real_of_int window_seconds - (current_time - oldest_timestamp)) + 1
               in ((False, Some retry_after), reqs'))
            else ((False, Some window_seconds), reqs'))
         else ((True, None), reqs(identifier \<mapsto> es @ [(current_time, 1)])))"

text \<open>
  \<open>check_rate_limit\<close>: \<open>current_time\<close> is the reading of its first line, \<open>clean_time\<close>
  the later reading made by \<open>_clean_old_requests\<close>.
\<close>

definition check_rate_limit ::
  "real \<Rightarrow> real \<Rightarrow> string \<Rightarrow> int \<Rightarrow> int \<Rightarrow> requests \<Rightarrow> (bool \<times> int option) \<times> requests" where
  "check_rate_limit current_time clean_time identifier max_requests window_seconds reqs =
     check_locked current_time identifier max_requests window_seconds
       (clean_old_requests clean_time identifier window_seconds reqs)"

text \<open>The entries recorded for an identifier; a missing identifier has none.\<close>

definition entries_of :: "requests \<Rightarrow> string \<Rightarrow> entry list" where
  "entries_of reqs identifier = (case reqs identifier of None \<Rightarrow> [] | Some es \<Rightarrow> es)"

definition total_count :: "requests \<Rightarrow> string \<Rightarrow> int" where
  "total_count reqs identifier = sum_list (map snd (entries_of reqs identifier))"

text \<open>The sum of the counts whose timestamp lies in the window that ends at \<open>now\<close>.\<close>

definition window_count :: "real \<Rightarrow> int \<Rightarrow> requests \<Rightarrow> string \<Rightarrow> int" where
  "window_count now window_seconds reqs identifier =
     sum_list (map snd (filter (\<lambda>(ts, count). ts > now - real_of_int window_seconds)
                          (entries_of reqs identifier)))"

text \<open>A sequence of calls for one identifier and one \<open>(max_requests, window_seconds)\<close>,
  each with its two clock readings.\<close>

fun run_checks ::
  "(real \<times> real) list \<Rightarrow> string \<Rightarrow> int \<Rightarrow> int \<Rightarrow> requests
     \<Rightarrow> (bool \<times> int option) list \<times> requests" where
  "run_checks [] identifier max_requests window_seconds reqs = ([], reqs)"
| "run_checks ((t, tc) # cs) identifier max_requests window_seconds reqs =
     (let (r, reqs') = check_rate_limit t tc identifier max_requests window_seconds reqs;
          (rs, reqs'') = run_checks cs identifier max_requests window_seconds reqs'
      in (r # rs, reqs''))"



text \<open>Both clock readings of a call lie in the window \<open>[T, T + window_seconds)\<close>.\<close>

definition within_window :: "real \<Rightarrow> int \<Rightarrow> real \<times> real \<Rightarrow> bool" where
  "within_window T window_seconds c =
     (T \<le> fst c \<and> fst c < T + real_of_int window_seconds
      \<and> T \<le> snd c \<and> snd c < T + real_of_int window_seconds)"

text \<open>No recorded count is negative and the counts of the identity sum to at most \<open>m\<close>.\<close>

definition capped :: "int \<Rightarrow> string \<Rightarrow> requests \<Rightarrow> bool" where
  "capped m identifier reqs =
     (list_all (\<lambda>e. 0 \<le> snd e) (entries_of reqs identifier)
      \<and> total_count reqs identifier \<le> m)"

subsection \<open>Raising on denial, and the three tiers\<close>

text \<open>\<open>AppException\<close> of src/core/exceptions.py; \<open>details\<close> holds integer entries only.\<close>

record app_exception =
  message :: string
  status_code :: int
  error_code :: string
  details :: "(string \<times> int) list"

text \<open>Python's \<open>str\<close> of an integer, as the f-string of the message formats it.\<close>

fun str_nat :: "nat \<Rightarrow> string" where
  "str_nat n = (if n < 10 then [''0123456789'' ! n]
                else str_nat (n div 10) @ [''0123456789'' ! (n mod 10)])"

definition str_int :: "int \<Rightarrow> string" where
  "str_int i = (if i < 0 then ''-'' @ str_nat (nat (- i)) else str_nat (nat i))"

definition str_optional_int :: "int option \<Rightarrow> string" where
  "str_optional_int v = (case v of None \<Rightarrow> ''None'' | Some i \<Rightarrow> str_int i)"

text \<open>\<open>RateLimitError.__init__\<close>: \<open>if retry_after:\<close> is false for \<open>None\<close> and for \<open>0\<close>.\<close>

definition RateLimitError :: "string \<Rightarrow> int option \<Rightarrow> app_exception" where
  "RateLimitError msg retry_after =
     \<lparr>message = msg, status_code = 429, error_code = ''RATE_LIMIT_EXCEEDED'',
      details = (case retry_after of
                   None \<Rightarrow> []
                 | Some n \<Rightarrow> if n \<noteq> 0 then [(''retry_after'', n)] else [])\<rparr>"

definition check_rate_limit_or_raise ::
  "real \<Rightarrow> real \<Rightarrow> string \<Rightarrow> int \<Rightarrow> int \<Rightarrow> requests \<Rightarrow> (app_exception + unit) \<times> requests" where
  "check_rate_limit_or_raise current_time clean_time identifier max_requests window_seconds reqs =
     (case check_rate_limit current_time clean_time identifier max_requests window_seconds reqs of
        ((is_allowed, retry_after), reqs') \<Rightarrow>
          if \<not> is_allowed then
            (Inl (RateLimitError
                    (''Rate limit exceeded. Try again in '' @ str_optional_int retry_after
                       @ '' seconds.'')
                    retry_after), reqs')
          else (Inr (), reqs'))"

text \<open>The fields of \<open>Config\<close> (src/core/config.py) that the modelled code reads.\<close>

record config =
  SECRET_KEY :: string
  ALGORITHM :: string
  ACCESS_TOKEN_EXPIRE_MINUTES :: int
  REFRESH_TOKEN_EXPIRE_DAYS :: int
  RATE_LIMIT_ENABLED :: bool
  RATE_LIMIT_PER_MINUTE :: int
  RATE_LIMIT_PER_HOUR :: int
  RATE_LIMIT_PER_DAY :: int
  MAX_SESSIONS_PER_USER :: int

text \<open>The defaults of \<open>Config\<close>; \<open>SECRET_KEY\<close> has none and comes from the environment.\<close>

definition default_config :: "string \<Rightarrow> config" where
  "default_config secret =
     \<lparr>SECRET_KEY = secret, ALGORITHM = ''HS256'', ACCESS_TOKEN_EXPIRE_MINUTES = 30,
      REFRESH_TOKEN_EXPIRE_DAYS = 7, RATE_LIMIT_ENABLED = True, RATE_LIMIT_PER_MINUTE = 60,
      RATE_LIMIT_PER_HOUR = 1000, RATE_LIMIT_PER_DAY = 10000, MAX_SESSIONS_PER_USER = 5\<rparr>"

text \<open>Each tier takes the two clock readings of its call of \<open>check_rate_limit\<close>.\<close>

definition check_rate_limit_per_minute ::
  "config \<Rightarrow> real \<times> real \<Rightarrow> string \<Rightarrow> requests \<Rightarrow> (app_exception + unit) \<times> requests" where
  "check_rate_limit_per_minute cfg clock identifier reqs =
     (if RATE_LIMIT_ENABLED cfg then
        check_rate_limit_or_raise (fst clock) (snd clock) (''minute:'' @ identifier)
          (RATE_LIMIT_PER_MINUTE cfg) 60 reqs
      else (Inr (), reqs))"

definition check_rate_limit_per_hour ::
  "config \<Rightarrow> real \<times> real \<Rightarrow> string \<Rightarrow> requests \<Rightarrow> (app_exception + unit) \<times> requests" where
  "check_rate_limit_per_hour cfg clock identifier reqs =
     (if RATE_LIMIT_ENABLED cfg then
        check_rate_limit_or_raise (fst clock) (snd clock) (''hour:'' @ identifier)
          (RATE_LIMIT_PER_HOUR cfg) 3600 reqs
      else (Inr (), reqs))"

definition check_rate_limit_per_day ::
  "config \<Rightarrow> real \<times> real \<Rightarrow> string \<Rightarrow> requests \<Rightarrow> (app_exception + unit) \<times> requests" where
  "check_rate_limit_per_day cfg clock identifier reqs =
     (if RATE_LIMIT_ENABLED cfg then
        check_rate_limit_or_raise (fst clock) (snd clock) (''day:'' @ identifier)
          (RATE_LIMIT_PER_DAY cfg) 86400 reqs
      else (Inr (), reqs))"

text \<open>\<open>check_all_rate_limits\<close>: an exception of one tier ends the call.\<close>

definition check_all_rate_limits ::
  "config \<Rightarrow> real \<times> real \<Rightarrow> real \<times> real \<Rightarrow> real \<times> real \<Rightarrow> string \<Rightarrow> requests
     \<Rightarrow> (app_exception + unit) \<times> requests" where
  "check_all_rate_limits cfg clock_minute clock_hour clock_day identifier reqs =
     (case check_rate_limit_per_minute cfg clock_minute identifier reqs of
        (Inl e, reqs1) \<Rightarrow> (Inl e, reqs1)
      | (Inr _, reqs1) \<Rightarrow>
          (case check_rate_limit_per_hour cfg clock_hour identifier reqs1 of
             (Inl e, reqs2) \<Rightarrow> (Inl e, reqs2)
           | (Inr _, reqs2) \<Rightarrow> check_rate_limit_per_day cfg clock_day identifier reqs2))"

subsection \<open>Concurrent callers\<close>

text \<open>
  A call of \<open>check_rate_limit\<close> holds the lock twice: once inside \<open>_clean_old_requests\<close>
  and once for the block that sums and appends. Each \<open>with self._lock\<close> block is one
  atomic section; the sections of concurrent callers interleave in any order that keeps
  the order within each caller.
\<close>

datatype locked_block =
    Clean real string int
  | Check real string int int

definition critical_sections :: "real \<Rightarrow> real \<Rightarrow> string \<Rightarrow> int \<Rightarrow> int \<Rightarrow> locked_block list" where
  "critical_sections current_time clean_time identifier max_requests window_seconds =
     [Clean clean_time identifier window_seconds,
      Check current_time identifier max_requests window_seconds]"

fun run_section :: "locked_block \<Rightarrow> requests \<Rightarrow> (bool \<times> int option) option \<times> requests" where
  "run_section (Clean t identifier w) reqs = (None, clean_old_requests t identifier w reqs)"
| "run_section (Check t identifier m w) reqs =
     (case check_locked t identifier m w reqs of (r, reqs') \<Rightarrow> (Some r, reqs'))"

text \<open>A schedule lists the sections in the order the lock is granted, each with the
  caller it belongs to; the verdicts are collected per caller.\<close>

fun run_schedule ::
  "(nat \<times> locked_block) list \<Rightarrow> requests \<Rightarrow> (nat \<times> (bool \<times> int option)) list \<times> requests" where
  "run_schedule [] reqs = ([], reqs)"
| "run_schedule ((caller, sec) # rest) reqs =
     (case run_section sec reqs of
        (None, reqs') \<Rightarrow> run_schedule rest reqs'
      | (Some r, reqs') \<Rightarrow>
          (case run_schedule rest reqs' of (rs, reqs'') \<Rightarrow> ((caller, r) # rs, reqs'')))"

definition caller_sections ::
  "nat \<Rightarrow> real \<Rightarrow> real \<Rightarrow> string \<Rightarrow> int \<Rightarrow> int \<Rightarrow> (nat \<times> locked_block) list" where
  "caller_sections caller current_time clean_time identifier max_requests window_seconds =
     map (Pair caller)
       (critical_sections current_time clean_time identifier max_requests window_seconds)"

text \<open>A block respects the limit \<open>m\<close> of identifier \<open>i\<close> unless it sums and appends
  for \<open>i\<close> under another limit.\<close>

fun uses_limit :: "int \<Rightarrow> string \<Rightarrow> locked_block \<Rightarrow> bool" where
  "uses_limit m i (Clean t j w) = True"
| "uses_limit m i (Check t j m' w) = (j \<noteq> i \<or> m' = m)"

section \<open>Security primitives (src/core/security.py)\<close>

text \<open>
  Exceptions are values. The last five are the classes of the jwt library, kept apart by
  constructor; in Python they are all subclasses of \<open>jwt.InvalidTokenError\<close>.
\<close>

datatype py_exception =
    ValueError string
  | TypeError string
  | UnicodeEncodeError
  | IntegrityError string
  | ExpiredSignatureError
  | DecodeError string
  | InvalidSignatureError
  | InvalidAlgorithmError
  | InvalidTokenError string

text \<open>
  The library calls the primitives make, each free to raise: \<open>str.encode('utf-8')\<close>,
  \<open>bcrypt.checkpw\<close> and \<open>bcrypt.hashpw\<close> (with the salt of \<open>bcrypt.gensalt\<close>).
\<close>

record library =
  str_encode :: "string \<Rightarrow> py_exception + string"
  bcrypt_checkpw :: "string \<Rightarrow> string \<Rightarrow> py_exception + bool"
  bcrypt_hashpw :: "string \<Rightarrow> string \<Rightarrow> py_exception + string"

text \<open>\<open>hash_password\<close>; the salt is what \<open>bcrypt.gensalt()\<close> returned.\<close>

definition hash_password :: "library \<Rightarrow> string \<Rightarrow> string \<Rightarrow> py_exception + string" where
  "hash_password lib salt password =
     (case str_encode lib password of
        Inl e \<Rightarrow> Inl e
      | Inr password_bytes \<Rightarrow> bcrypt_hashpw lib password_bytes salt)"

text \<open>\<open>verify_password\<close>: the whole body is inside \<open>try\<close>, and \<open>except Exception\<close>
  returns \<open>False\<close>.\<close>

definition verify_password :: "library \<Rightarrow> string \<Rightarrow> string \<Rightarrow> py_exception + bool" where
  "verify_password lib plain_password hashed_password =
     (case (case str_encode lib plain_password of
              Inl e \<Rightarrow> Inl e
            | Inr password_bytes \<Rightarrow>
                (case str_encode lib hashed_password of
                   Inl e \<Rightarrow> Inl e
                 | Inr hashed_bytes \<Rightarrow> bcrypt_checkpw lib password_bytes hashed_bytes)) of
        Inl e \<Rightarrow> Inr False
      | Inr matches \<Rightarrow> Inr matches)"

subsection \<open>Access tokens\<close>

text \<open>
  A claim set is a Python dict; instants (\<open>datetime\<close>) and durations (\<open>timedelta\<close>) are
  integers in microseconds.
\<close>

datatype claim = Str string | Time int

type_synonym claims = "(string \<times> claim) list"

fun dict_update :: "string \<Rightarrow> claim \<Rightarrow> claims \<Rightarrow> claims" where
  "dict_update k v [] = [(k, v)]"
| "dict_update k v ((k', v') # d) =
     (if k' = k then (k, v) # d else (k', v') # dict_update k v d)"

text \<open>
  Modelled from the spec: the token string of the codec (\<open>jwt.encode\<close> and
  \<open>jwt.decode\<close> belong to a library that is not among the sources). A token string is
  either a claim set signed with a key and an algorithm, or any other string.
\<close>

datatype token_string = Signed claims string string | Other string

text \<open>Modelled from the spec: \<open>jwt.encode\<close> signs the claim set with the secret and the
  configured algorithm.\<close>

definition jwt_encode :: "claims \<Rightarrow> string \<Rightarrow> string \<Rightarrow> token_string" where
  "jwt_encode payload key algorithm = Signed payload key algorithm"

text \<open>Modelled from the spec: \<open>jwt.decode\<close> fails when the string is not a token or
  the signature check fails, and fails with \<open>Expired\<close> when \<open>now > expires_at\<close>.\<close>

definition jwt_decode :: "int \<Rightarrow> token_string \<Rightarrow> string \<Rightarrow> string list \<Rightarrow> py_exception + claims" where
  "jwt_decode now token key algorithms =
     (case token of
        Other s \<Rightarrow> Inl (DecodeError ''Not enough segments'')
      | Signed payload k a \<Rightarrow>
          if a \<notin> set algorithms then Inl InvalidAlgorithmError
          else if k \<noteq> key then Inl InvalidSignatureError
          else (case map_of payload ''exp'' of
                  Some (Time expires_at) \<Rightarrow>
                    if now > expires_at then Inl ExpiredSignatureError else Inr payload
                | _ \<Rightarrow> Inr payload))"

text \<open>
  \<open>create_access_token\<close>. \<open>if expires_delta:\<close> is false for \<open>None\<close> and for a zero
  \<open>timedelta\<close>. The clock is read once for \<open>exp\<close> and once more for \<open>iat\<close>.
\<close>

definition create_access_token ::
  "config \<Rightarrow> int \<Rightarrow> int \<Rightarrow> claims \<Rightarrow> int option \<Rightarrow> token_string" where
  "create_access_token cfg now_exp now_iat data expires_delta =
     (let to_encode = data;
          expire = (case expires_delta of
                      Some delta \<Rightarrow>
                        if delta \<noteq> 0 then now_exp + delta
                        else now_exp + ACCESS_TOKEN_EXPIRE_MINUTES cfg * 60000000
                    | None \<Rightarrow> now_exp + ACCESS_TOKEN_EXPIRE_MINUTES cfg * 60000000);
          to_encode = dict_update ''type'' (Str ''access'')
                        (dict_update ''iat'' (Time now_iat)
                           (dict_update ''exp'' (Time expire) to_encode))
      in jwt_encode to_encode (SECRET_KEY cfg) (ALGORITHM cfg))"

text \<open>\<open>decode_access_token\<close>: both \<open>except\<close> clauses log and raise the exception again.\<close>

definition decode_access_token :: "config \<Rightarrow> int \<Rightarrow> token_string \<Rightarrow> py_exception + claims" where
  "decode_access_token cfg now token =
     (case jwt_decode now token (SECRET_KEY cfg) [ALGORITHM cfg] of
        Inl e \<Rightarrow> Inl e
      | Inr payload \<Rightarrow>
          if map_of payload ''type'' \<noteq> Some (Str ''access'')
          then Inl (InvalidTokenError ''Invalid token type'')
          else Inr payload)"

section \<open>The credential store\<close>

text \<open>
  \<open>User\<close> and \<open>RefreshToken\<close> of src/models/user.py. Field names carry a prefix because
  both classes have \<open>id\<close>; instants are microseconds.
\<close>

record user =
  u_id :: int
  u_username :: string
  u_email :: string
  u_hashed_password :: string
  u_is_active :: bool
  u_is_admin :: bool
  u_email_verified :: bool

record refresh_token =
  t_id :: int
  t_token :: string
  t_user_id :: int
  t_expires_at :: int
  t_created_at :: int
  t_is_revoked :: bool
  t_user_agent :: "string option"
  t_ip_address :: "string option"

record store =
  users :: "user list"
  refresh_tokens :: "refresh_token list"

definition next_id :: "int list \<Rightarrow> int" where
  "next_id ids = fold max ids 0 + 1"

text \<open>
  \<open>AuthRepository\<close> (src/repositories/auth_repository.py) is not among the sources. Its
  operations are modelled from the store contract of the specification: lookups that
  return nothing for a missing row, \<open>create_user\<close>, \<open>revoke_refresh_credential\<close> and
  \<open>create_refresh_credential\<close>. The unique columns of the models (\<open>username\<close>, \<open>email\<close>,
  \<open>token\<close>) make an insert of a duplicate fail and leave the store as it was.
\<close>

text \<open>Modelled from the spec: \<open>find_user_by_username(name) -> User?\<close>.\<close>

definition get_user_by_username :: "store \<Rightarrow> string \<Rightarrow> user option" where
  "get_user_by_username db name = find (\<lambda>u. u_username u = name) (users db)"

text \<open>Modelled from the spec: \<open>find_user_by_email(email) -> User?\<close>.\<close>

definition get_user_by_email :: "store \<Rightarrow> string \<Rightarrow> user option" where
  "get_user_by_email db addr = find (\<lambda>u. u_email u = addr) (users db)"

text \<open>Modelled from the spec: \<open>find_user_by_id(id) -> User?\<close>.\<close>

definition get_user_by_id :: "store \<Rightarrow> int \<Rightarrow> user option" where
  "get_user_by_id db uid = find (\<lambda>u. u_id u = uid) (users db)"

text \<open>Modelled from the spec: \<open>create_user(username, email, password_hash) -> User\<close>,
  with the column defaults of the \<open>User\<close> model.\<close>

definition create_user :: "store \<Rightarrow> string \<Rightarrow> string \<Rightarrow> string \<Rightarrow> py_exception + user \<times> store" where
  "create_user db name addr hashed =
     (if get_user_by_username db name \<noteq> None \<or> get_user_by_email db addr \<noteq> None
      then Inl (IntegrityError ''users'')
      else (let u = \<lparr>u_id = next_id (map u_id (users db)), u_username = name, u_email = addr,
                      u_hashed_password = hashed, u_is_active = True, u_is_admin = False,
                      u_email_verified = False\<rparr>
            in Inr (u, db\<lparr>users := users db @ [u]\<rparr>)))"

text \<open>Modelled from the spec: \<open>find_refresh_credential(token) -> RefreshCredential?\<close>.\<close>

definition get_refresh_token :: "store \<Rightarrow> string \<Rightarrow> refresh_token option" where
  "get_refresh_token db token = find (\<lambda>r. t_token r = token) (refresh_tokens db)"

text \<open>Modelled from the spec: \<open>revoke_refresh_credential(token) -> void\<close>.\<close>

definition revoke_refresh_token :: "store \<Rightarrow> string \<Rightarrow> store" where
  "revoke_refresh_token db token =
     db\<lparr>refresh_tokens :=
          map (\<lambda>r. if t_token r = token then r\<lparr>t_is_revoked := True\<rparr> else r)
            (refresh_tokens db)\<rparr>"

text \<open>
  Modelled from the spec: the live credentials of a user, the non-revoked, non-expired
  ones. A credential is expired when \<open>expires_at < now\<close>, the test
  \<open>refresh_access_token\<close> makes.
\<close>

definition live_tokens :: "store \<Rightarrow> int \<Rightarrow> int \<Rightarrow> refresh_token list" where
  "live_tokens db uid now =
     filter (\<lambda>r. t_user_id r = uid \<and> \<not> t_is_revoked r \<and> \<not> t_expires_at r < now)
       (refresh_tokens db)"

text \<open>Modelled from the spec: the oldest credential by \<open>created_at\<close>, the earlier row
  among equals.\<close>

fun oldest :: "refresh_token list \<Rightarrow> refresh_token option" where
  "oldest [] = None"
| "oldest (r # rs) =
     (case oldest rs of
        None \<Rightarrow> Some r
      | Some r' \<Rightarrow> if t_created_at r \<le> t_created_at r' then Some r else Some r')"

text \<open>
  Modelled from the spec: session-limit enforcement. Before a new credential is
  persisted the number of live ones is compared with the configured maximum and, at or
  above it, the oldest is revoked.
\<close>

definition enforce_session_limit :: "config \<Rightarrow> int \<Rightarrow> store \<Rightarrow> int \<Rightarrow> store" where
  "enforce_session_limit cfg now db uid =
     (let live = live_tokens db uid now in
      if int (length live) \<ge> MAX_SESSIONS_PER_USER cfg then
        (case oldest live of
           None \<Rightarrow> db
         | Some r \<Rightarrow> revoke_refresh_token db (t_token r))
      else db)"

text \<open>
  Modelled from the spec:
  \<open>create_refresh_credential(user_id, token, ttl_days, user_agent?, origin?)\<close>, with the
  session limit enforced before the row is inserted.
\<close>

definition create_refresh_token ::
  "config \<Rightarrow> int \<Rightarrow> store \<Rightarrow> int \<Rightarrow> string \<Rightarrow> int \<Rightarrow> string option \<Rightarrow> string option
     \<Rightarrow> py_exception + store" where
  "create_refresh_token cfg now db uid token expires_days user_agent ip_address =
     (if get_refresh_token db token \<noteq> None then Inl (IntegrityError ''refresh_tokens'')
      else (let db' = enforce_session_limit cfg now db uid;
                r = \<lparr>t_id = next_id (map t_id (refresh_tokens db')), t_token = token,
                     t_user_id = uid, t_expires_at = now + expires_days * 86400000000,
                     t_created_at = now, t_is_revoked = False,
                     t_user_agent = user_agent, t_ip_address = ip_address\<rparr>
            in Inr (db'\<lparr>refresh_tokens := refresh_tokens db' @ [r]\<rparr>)))"

section \<open>Session manager (src/services/auth_service.py)\<close>

text \<open>
  What one service call draws from outside: the clock readings of
  \<open>create_access_token\<close>, the reading of the expiry test in \<open>refresh_access_token\<close>, the
  store's clock, the string of \<open>generate_refresh_token()\<close> and the bcrypt salt.
\<close>

record draws =
  clock_exp :: int
  clock_iat :: int
  clock_check :: int
  clock_store :: int
  fresh_token :: string
  salt :: string

record token_response =
  access_token :: token_string
  refresh_token_out :: string
  token_type :: string

definition TokenResponse :: "token_string \<Rightarrow> string \<Rightarrow> token_response" where
  "TokenResponse access refresh =
     \<lparr>access_token = access, refresh_token_out = refresh, token_type = ''bearer''\<rparr>"

text \<open>
  The token-issuance sequence that \<open>register_user\<close> and \<open>login_user\<close> both contain,
  from \<open>create_access_token\<close> to the \<open>TokenResponse\<close>: an exception of the store
  passes through the \<open>except\<close> clause, which logs and raises it again.
\<close>

definition issue_tokens ::
  "config \<Rightarrow> draws \<Rightarrow> store \<Rightarrow> user \<Rightarrow> string option \<Rightarrow> string option
     \<Rightarrow> (py_exception + token_response) \<times> store" where
  "issue_tokens cfg d db u user_agent ip_address =
     (let access = create_access_token cfg (clock_exp d) (clock_iat d)
                     [(''sub'', Str (str_int (u_id u))), (''username'', Str (u_username u))] None;
          refresh = fresh_token d
      in case create_refresh_token cfg (clock_store d) db (u_id u) refresh
                (REFRESH_TOKEN_EXPIRE_DAYS cfg) user_agent ip_address of
           Inl e \<Rightarrow> (Inl e, db)
         | Inr db' \<Rightarrow> (Inr (TokenResponse access refresh), db'))"

definition register_user ::
  "config \<Rightarrow> library \<Rightarrow> draws \<Rightarrow> store \<Rightarrow> string \<Rightarrow> string \<Rightarrow> string
     \<Rightarrow> string option \<Rightarrow> string option \<Rightarrow> (py_exception + token_response) \<times> store" where
  "register_user cfg lib d db name addr password user_agent ip_address =
     (if get_user_by_username db name \<noteq> None
      then (Inl (ValueError ''Username already exists''), db)
      else if get_user_by_email db addr \<noteq> None
      then (Inl (ValueError ''Email already exists''), db)
      else (case hash_password lib (salt d) password of
              Inl e \<Rightarrow> (Inl e, db)
            | Inr hashed \<Rightarrow>
                (case create_user db name addr hashed of
                   Inl e \<Rightarrow> (Inl e, db)
                 | Inr (u, db1) \<Rightarrow> issue_tokens cfg d db1 u user_agent ip_address)))"

definition login_user ::
  "config \<Rightarrow> library \<Rightarrow> draws \<Rightarrow> store \<Rightarrow> string \<Rightarrow> string
     \<Rightarrow> string option \<Rightarrow> string option \<Rightarrow> (py_exception + token_response) \<times> store" where
  "login_user cfg lib d db name password user_agent ip_address =
     (case get_user_by_username db name of
        None \<Rightarrow> (Inl (ValueError ''Invalid username or password''), db)
      | Some u \<Rightarrow>
          (case verify_password lib password (u_hashed_password u) of
             Inl e \<Rightarrow> (Inl e, db)
           | Inr matches \<Rightarrow>
               if \<not> matches then (Inl (ValueError ''Invalid username or password''), db)
               else if \<not> u_is_active u then (Inl (ValueError ''Account is inactive''), db)
               else issue_tokens cfg d db u user_agent ip_address))"

definition refresh_access_token ::
  "config \<Rightarrow> draws \<Rightarrow> store \<Rightarrow> string \<Rightarrow> string option \<Rightarrow> string option \<Rightarrow> bool
     \<Rightarrow> (py_exception + token_response) \<times> store" where
  "refresh_access_token cfg d db refresh_token user_agent ip_address rotate_refresh_token =
     (case get_refresh_token db refresh_token of
        None \<Rightarrow> (Inl (ValueError ''Invalid refresh token''), db)
      | Some token_record \<Rightarrow>
          if t_is_revoked token_record
          then (Inl (ValueError ''Refresh token has been revoked''), db)
          else if t_expires_at token_record < clock_check d
          then (Inl (ValueError ''Refresh token has expired''), db)
          else (case get_user_by_id db (t_user_id token_record) of
                  None \<Rightarrow> (Inl (ValueError ''User not found''), db)
                | Some u \<Rightarrow>
                    if \<not> u_is_active u then (Inl (ValueError ''Account is inactive''), db)
                    else (let access = create_access_token cfg (clock_exp d) (clock_iat d)
                                         [(''sub'', Str (str_int (u_id u))),
                                          (''username'', Str (u_username u))] None
                          in if rotate_refresh_token then
                               (let db1 = revoke_refresh_token db refresh_token;
                                    new_refresh_token = fresh_token d
                                in case create_refresh_token cfg (clock_store d) db1 (u_id u)
                                          new_refresh_token (REFRESH_TOKEN_EXPIRE_DAYS cfg)
                                          user_agent ip_address of
                                     Inl e \<Rightarrow> (Inl e, db1)
                                   | Inr db2 \<Rightarrow>
                                       (Inr (TokenResponse access new_refresh_token), db2))
                             else (Inr (TokenResponse access refresh_token), db))))"

definition logout_user :: "store \<Rightarrow> string \<Rightarrow> int \<Rightarrow> (py_exception + bool) \<times> store" where
  "logout_user db refresh_token uid =
     (case get_refresh_token db refresh_token of
        None \<Rightarrow> (Inl (ValueError ''Invalid refresh token''), db)
      | Some token_record \<Rightarrow>
          if t_user_id token_record \<noteq> uid
          then (Inl (ValueError ''Invalid refresh token''), db)
          else if t_is_revoked token_record then (Inr True, db)
          else (Inr True, revoke_refresh_token db refresh_token))"

text \<open>The calls of the session manager, and a run of several of them in turn.\<close>

datatype auth_call =
    Register draws string string string "string option" "string option"
  | Login draws string string "string option" "string option"
  | Refresh draws string "string option" "string option" bool
  | Logout string int

fun run_call :: "config \<Rightarrow> library \<Rightarrow> auth_call \<Rightarrow> store \<Rightarrow> store" where
  "run_call cfg lib (Register d name addr password ua ip) db =
     snd (register_user cfg lib d db name addr password ua ip)"
| "run_call cfg lib (Login d name password ua ip) db =
     snd (login_user cfg lib d db name password ua ip)"
| "run_call cfg lib (Refresh d token ua ip rotating) db =
     snd (refresh_access_token cfg d db token ua ip rotating)"
| "run_call cfg lib (Logout token uid) db = snd (logout_user db token uid)"

fun run_calls :: "config \<Rightarrow> library \<Rightarrow> auth_call list \<Rightarrow> store \<Rightarrow> store" where
  "run_calls cfg lib [] db = db"
| "run_calls cfg lib (c # cs) db = run_calls cfg lib cs (run_call cfg lib c db)"

subsection \<open>A library, users and a store for the examples\<close>

text \<open>
  The examples below run the definitions on this instance: an encoder that never fails,
  a \<open>checkpw\<close> that raises \<open>ValueError\<close> on a stored hash without the \<open>$2b$\<close> prefix,
  an active user, a user whose stored hash is corrupt and an inactive user.
\<close>

definition example_library :: library where
  "example_library =
     \<lparr>str_encode = Inr,
      bcrypt_checkpw = (\<lambda>password_bytes hashed_bytes.
         if take 4 hashed_bytes = ''$2b$'' then Inr (hashed_bytes = ''$2b$'' @ password_bytes)
         else Inl (ValueError ''Invalid salt'')),
      bcrypt_hashpw = (\<lambda>password_bytes salt_bytes. Inr (''$2b$'' @ password_bytes))\<rparr>"

definition alice :: user where
  "alice = \<lparr>u_id = 1, u_username = ''alice'', u_email = ''alice@x.com'',
            u_hashed_password = ''$2b$Passw0rd1'', u_is_active = True, u_is_admin = False,
            u_email_verified = False\<rparr>"

definition bob :: user where
  "bob = \<lparr>u_id = 2, u_username = ''bob'', u_email = ''bob@x.com'',
          u_hashed_password = ''corrupt'', u_is_active = True, u_is_admin = False,
          u_email_verified = False\<rparr>"

definition carol :: user where
  "carol = \<lparr>u_id = 3, u_username = ''carol'', u_email = ''carol@x.com'',
            u_hashed_password = ''$2b$Passw0rd3'', u_is_active = False, u_is_admin = False,
            u_email_verified = False\<rparr>"

definition example_store :: store where
  "example_store = \<lparr>users = [alice, bob, carol], refresh_tokens = []\<rparr>"

definition example_draws :: "int \<Rightarrow> string \<Rightarrow> draws" where
  "example_draws now token =
     \<lparr>clock_exp = now, clock_iat = now, clock_check = now, clock_store = now,
      fresh_token = token, salt = ''salt''\<rparr>"

text \<open>The credential with this token exists and is revoked.\<close>

definition is_revoked_in :: "store \<Rightarrow> string \<Rightarrow> bool" where
  "is_revoked_in db token =
     (case get_refresh_token db token of None \<Rightarrow> False | Some r \<Rightarrow> t_is_revoked r)"

text \<open>
  Stores for the session examples: \<open>alice\<close> with two live credentials, created at
  10 and 20 microseconds, a configuration that allows two sessions per user, and the
  store after a third login at 30 microseconds.
\<close>

definition session :: "int \<Rightarrow> string \<Rightarrow> int \<Rightarrow> int \<Rightarrow> refresh_token" where
  "session n token uid created =
     \<lparr>t_id = n, t_token = token, t_user_id = uid,
      t_expires_at = created + 7 * 86400000000, t_created_at = created, t_is_revoked = False,
      t_user_agent = None, t_ip_address = None\<rparr>"

definition two_sessions :: store where
  "two_sessions = example_store\<lparr>refresh_tokens := [session 1 ''s1'' 1 10, session 2 ''s2'' 1 20]\<rparr>"



section \<open>Properties of the rate limiter\<close>

subsection \<open>What one call does to the entries of its identifier\<close>

lemma entries_of_upd [simp]: "entries_of (reqs(i \<mapsto> es)) i = es"
  by (simp add: entries_of_def)

lemma entries_clean:
  "entries_of (clean_old_requests t i w reqs) i
     = filter (\<lambda>(ts, count). ts > t - real_of_int w) (entries_of reqs i)"
  by (simp add: clean_old_requests_def entries_of_def Let_def split: option.splits)

lemma clean_other:
  "j \<noteq> i \<Longrightarrow> clean_old_requests t i w reqs j = reqs j"
  by (simp add: clean_old_requests_def Let_def split: option.splits)

lemma check_locked_other:
  "j \<noteq> i \<Longrightarrow> snd (check_locked t i m w reqs) j = reqs j"
  by (simp add: check_locked_def Let_def)

lemma check_locked_entries:
  "check_locked t i m w reqs =
     (let es = entries_of reqs i in
      if sum_list (map snd es) \<ge> m then
        ((False, Some (if es = [] then w
                       else py_int (real_of_int w - (t - Min (set (map fst es)))) + 1)),
         reqs(i \<mapsto> es))
      else ((True, None), reqs(i \<mapsto> es @ [(t, 1)])))"
  by (simp add: check_locked_def entries_of_def Let_def)

lemma entries_check_rate_limit:
  "entries_of (snd (check_rate_limit t tc i m w reqs)) i =
     (let kept = filter (\<lambda>(ts, count). ts > tc - real_of_int w) (entries_of reqs i) in
      if sum_list (map snd kept) \<ge> m then kept else kept @ [(t, 1)])"
  by (simp add: check_rate_limit_def check_locked_entries entries_clean Let_def)

lemma result_check_rate_limit:
  "fst (check_rate_limit t tc i m w reqs) =
     (let kept = filter (\<lambda>(ts, count). ts > tc - real_of_int w) (entries_of reqs i) in
      if sum_list (map snd kept) \<ge> m then
        (False, Some (if kept = [] then w
                      else py_int (real_of_int w - (t - Min (set (map fst kept)))) + 1))
      else (True, None))"
  by (simp add: check_rate_limit_def check_locked_entries entries_clean Let_def)

lemma check_rate_limit_other:
  "j \<noteq> i \<Longrightarrow> snd (check_rate_limit t tc i m w reqs) j = reqs j"
  by (simp add: check_rate_limit_def check_locked_other clean_other)



subsection \<open>The algorithm of one call\<close>




subsection \<open>Calls within one window\<close>

lemma filter_keeps_all:
  assumes "\<forall>e \<in> set es. T \<le> fst e" and "tc < T + real_of_int w"
  shows "filter (\<lambda>(ts, count). ts > tc - real_of_int w) es = es"
proof -
  have "fst e > tc - real_of_int w" if "e \<in> set es" for e
    using assms that by fastforce
  then show ?thesis
    by (simp add: case_prod_beta)
qed

text \<open>While the limit is not reached, calls inside the window are allowed and each
  appends its own entry.\<close>

lemma run_checks_allowed:
  assumes "\<forall>e \<in> set (entries_of reqs i). T \<le> fst e"
    and "\<forall>c \<in> set cs. within_window T w c"
    and "sum_list (map snd (entries_of reqs i)) + int (length cs) \<le> m"
  shows "fst (run_checks cs i m w reqs) = replicate (length cs) (True, None)
         \<and> entries_of (snd (run_checks cs i m w reqs)) i
             = entries_of reqs i @ map (\<lambda>c. (fst c, 1)) cs"
  using assms
proof (induction cs arbitrary: reqs)
  case Nil
  then show ?case by simp
next
  case (Cons c cs)
  obtain t tc where c: "c = (t, tc)" by (cases c)
  define reqs' where "reqs' = snd (check_rate_limit t tc i m w reqs)"
  have win: "T \<le> t" "tc < T + real_of_int w"
    using Cons.prems(2) by (simp_all add: c within_window_def)
  have keep: "filter (\<lambda>(ts, count). ts > tc - real_of_int w) (entries_of reqs i)
                = entries_of reqs i"
    using filter_keeps_all[OF Cons.prems(1) win(2)] .
  have below: "\<not> m \<le> sum_list (map snd (entries_of reqs i))"
    using Cons.prems(3) by simp
  have res: "fst (check_rate_limit t tc i m w reqs) = (True, None)"
    by (simp add: result_check_rate_limit keep below)
  have ent: "entries_of reqs' i = entries_of reqs i @ [(t, 1)]"
    by (simp add: reqs'_def entries_check_rate_limit keep below)
  have p1: "\<forall>e \<in> set (entries_of reqs' i). T \<le> fst e"
    using Cons.prems(1) win(1) by (auto simp: ent)
  have p2: "\<forall>c \<in> set cs. within_window T w c"
    using Cons.prems(2) by simp
  have p3: "sum_list (map snd (entries_of reqs' i)) + int (length cs) \<le> m"
    using Cons.prems(3) by (simp add: ent)
  note IH = Cons.IH[OF p1 p2 p3]
  have step: "run_checks ((t, tc) # cs) i m w reqs =
          (fst (check_rate_limit t tc i m w reqs) # fst (run_checks cs i m w reqs'),
           snd (run_checks cs i m w reqs'))"
    by (simp add: reqs'_def case_prod_beta Let_def)
  show ?case
    unfolding c step using IH by (simp add: res ent)
qed

lemma run_checks_append:
  "run_checks (cs @ ds) i m w reqs =
     (fst (run_checks cs i m w reqs) @ fst (run_checks ds i m w (snd (run_checks cs i m w reqs))),
      snd (run_checks ds i m w (snd (run_checks cs i m w reqs))))"
  by (induction cs arbitrary: reqs) (auto simp: case_prod_beta Let_def)

text \<open>At the limit, a call inside the window is denied and told to wait at least a second.\<close>

lemma denied_in_window:
  assumes "\<forall>e \<in> set (entries_of reqs i). T \<le> fst e \<and> fst e < T + real_of_int w"
    and "within_window T w (t, tc)"
    and "m \<le> sum_list (map snd (entries_of reqs i))"
    and "entries_of reqs i \<noteq> []"
  shows "\<exists>r. fst (check_rate_limit t tc i m w reqs) = (False, Some r) \<and> 0 < r"
proof -
  let ?es = "entries_of reqs i"
  have win: "T \<le> t" "t < T + real_of_int w" "tc < T + real_of_int w"
    using assms(2) by (simp_all add: within_window_def)
  have keep: "filter (\<lambda>(ts, count). ts > tc - real_of_int w) ?es = ?es"
    using filter_keeps_all[of ?es T tc w] assms(1) win(3) by blast
  have "Min (set (map fst ?es)) \<in> set (map fst ?es)"
    using assms(4) by (intro Min_in) auto
  then have "T \<le> Min (set (map fst ?es))"
    using assms(1) by auto
  then have "0 < real_of_int w - (t - Min (set (map fst ?es)))"
    using win(2) by simp
  then have "0 \<le> py_int (real_of_int w - (t - Min (set (map fst ?es))))"
    by (simp add: py_int_def)
  then show ?thesis
    using assms(3,4) by (simp add: result_check_rate_limit keep)
qed

subsection \<open>The cap on the recorded counts\<close>

lemma sum_filter_le:
  assumes "\<forall>e \<in> set (es :: entry list). 0 \<le> snd e"
  shows "sum_list (map snd (filter P es)) \<le> sum_list (map snd es)"
  using assms by (induction es) auto

lemma capped_iff:
  "capped m i reqs \<longleftrightarrow>
     (\<forall>e \<in> set (entries_of reqs i). 0 \<le> snd e) \<and> sum_list (map snd (entries_of reqs i)) \<le> m"
  by (simp add: capped_def total_count_def list_all_iff)

lemma capped_clean:
  assumes "capped m i reqs"
  shows "capped m i (clean_old_requests t i w reqs)"
proof -
  let ?kept = "filter (\<lambda>(ts, count). ts > t - real_of_int w) (entries_of reqs i)"
  have "sum_list (map snd ?kept) \<le> sum_list (map snd (entries_of reqs i))"
    using assms by (intro sum_filter_le) (simp add: capped_iff)
  then show ?thesis
    using assms by (simp add: capped_iff entries_clean)
qed

lemma capped_check_locked:
  assumes "capped m i reqs"
  shows "capped m i (snd (check_locked t i m w reqs))"
  using assms by (simp add: capped_iff check_locked_entries Let_def)

lemma capped_check_rate_limit:
  "capped m i reqs \<Longrightarrow> capped m i (snd (check_rate_limit t tc i m w reqs))"
  unfolding check_rate_limit_def by (intro capped_check_locked capped_clean)

lemma capped_run_checks:
  "capped m i reqs \<Longrightarrow> capped m i (snd (run_checks cs i m w reqs))"
proof (induction cs arbitrary: reqs)
  case Nil
  then show ?case by simp
next
  case (Cons c cs)
  obtain t tc where c: "c = (t, tc)" by (cases c)
  have "capped m i (snd (check_rate_limit t tc i m w reqs))"
    using Cons.prems by (rule capped_check_rate_limit)
  from Cons.IH[OF this] show ?case
    by (simp add: c case_prod_beta Let_def)
qed

lemma window_count_le_cap:
  assumes "capped m i reqs"
  shows "window_count now w reqs i \<le> m"
proof -
  have "window_count now w reqs i \<le> sum_list (map snd (entries_of reqs i))"
    unfolding window_count_def using assms by (intro sum_filter_le) (simp add: capped_iff)
  then show ?thesis
    using assms by (simp add: capped_iff)
qed

text \<open>History that lies outside the window is gone after the pruning of the first call.\<close>

lemma clean_stale:
  assumes "\<forall>e \<in> set (entries_of reqs i). fst e \<le> T - real_of_int w" and "T \<le> tc"
  shows "clean_old_requests tc i w reqs = reqs(i := None)"
proof (cases "reqs i")
  case None
  then show ?thesis by (simp add: clean_old_requests_def fun_upd_idem)
next
  case (Some es)
  have "\<not> fst e > tc - real_of_int w" if "e \<in> set es" for e
    using assms that Some by (fastforce simp: entries_of_def)
  then have "filter (\<lambda>(ts, count). ts > tc - real_of_int w) es = []"
    by (auto simp: filter_empty_conv)
  then show ?thesis using Some by (simp add: clean_old_requests_def)
qed

lemma check_rate_limit_stale:
  assumes "\<forall>e \<in> set (entries_of reqs i). fst e \<le> T - real_of_int w" and "T \<le> tc"
  shows "check_rate_limit t tc i m w reqs = check_rate_limit t tc i m w (reqs(i := None))"
proof -
  have "clean_old_requests tc i w (reqs(i := None)) = reqs(i := None)"
    by (simp add: clean_old_requests_def)
  then show ?thesis
    unfolding check_rate_limit_def clean_stale[OF assms] by simp
qed

lemma run_checks_stale:
  assumes "\<forall>e \<in> set (entries_of reqs i). fst e \<le> T - real_of_int w" and "T \<le> snd d"
  shows "run_checks (d # ds) i m w reqs = run_checks (d # ds) i m w (reqs(i := None))"
  using check_rate_limit_stale[OF assms, of "fst d" m] by (cases d) simp

lemma fresh_allows_max_then_denies:
  assumes "1 \<le> m" and "entries_of reqs i = []"
    and len: "length cs = nat m" and win: "\<forall>x \<in> set (cs @ [c]). within_window T w x"
  shows "\<exists>r. fst (run_checks (cs @ [c]) i m w reqs)
                    = replicate (nat m) (True, None) @ [(False, Some r)] \<and> 0 < r"
proof -
  define reqs' where "reqs' = snd (run_checks cs i m w reqs)"
  have a1: "\<forall>e \<in> set (entries_of reqs i). T \<le> fst e"
    using assms(2) by simp
  have a2: "\<forall>x \<in> set cs. within_window T w x"
    using win by simp
  have a3: "sum_list (map snd (entries_of reqs i)) + int (length cs) \<le> m"
    using assms len by simp
  from run_checks_allowed[OF a1 a2 a3]
  have allowed: "fst (run_checks cs i m w reqs) = replicate (nat m) (True, None)"
    and ent: "entries_of reqs' i = map (\<lambda>c. (fst c, 1)) cs"
    by (simp_all add: len reqs'_def assms(2))
  have b1: "\<forall>e \<in> set (entries_of reqs' i). T \<le> fst e \<and> fst e < T + real_of_int w"
    using a2 by (auto simp: ent within_window_def)
  have b2: "within_window T w (fst c, snd c)"
    using win by simp
  have sum1: "sum_list (map snd (map (\<lambda>c. (fst c, 1::int)) cs)) = int (length cs)"
    by (induction cs) auto
  have b3: "m \<le> sum_list (map snd (entries_of reqs' i))"
    unfolding ent sum1 using assms(1) len by simp
  have b4: "entries_of reqs' i \<noteq> []"
    using assms(1) len by (auto simp: ent)
  from denied_in_window[OF b1 b2 b3 b4]
  obtain r where r: "fst (check_rate_limit (fst c) (snd c) i m w reqs') = (False, Some r)" "0 < r"
    by blast
  have last: "fst (run_checks [c] i m w reqs') = [(False, Some r)]"
    using r(1) by (cases c) (simp add: case_prod_beta Let_def)
  show ?thesis
    using r(2) by (simp add: run_checks_append allowed last reqs'_def[symmetric])
qed

text \<open>
  Claim C2. Let the entries recorded for an identifier all lie outside the window that
  starts at \<open>T\<close> (timestamps at or before \<open>T - window_seconds\<close>; none at all is one such
  case), and \<open>max_requests \<ge> 1\<close>. Calls \<open>cs\<close>, exactly \<open>max_requests\<close> of them, followed by
  one more call \<open>c\<close>, all with their clock readings inside the window
  \<open>[T, T + window_seconds)\<close>, return allowed \<open>max_requests\<close> times and then denied with
  \<open>retry_after > 0\<close>. After every call of any run of calls that starts at or after \<open>T\<close>,
  the counts recorded within the window that ends at any \<open>now\<close> sum to at most
  \<open>max_requests\<close>; the same holds after any calls at all on a limiter whose counts for the
  identifier are not negative and sum to at most \<open>max_requests\<close>.
\<close>

theorem rate_limit_allows_max_then_denies:
  assumes "1 \<le> m" and "\<forall>e \<in> set (entries_of reqs i). fst e \<le> T - real_of_int w"
  shows "(length cs = nat m \<longrightarrow> (\<forall>x \<in> set (cs @ [c]). within_window T w x) \<longrightarrow>
            (\<exists>r. fst (run_checks (cs @ [c]) i m w reqs)
                    = replicate (nat m) (True, None) @ [(False, Some r)] \<and> 0 < r))
         \<and> (T \<le> snd d \<longrightarrow> window_count now w (snd (run_checks (d # ds) i m w reqs)) i \<le> m)
         \<and> (capped m i reqs \<longrightarrow> window_count now w (snd (run_checks ds i m w reqs)) i \<le> m)"
proof (intro conjI impI)
  assume len: "length cs = nat m" and win: "\<forall>x \<in> set (cs @ [c]). within_window T w x"
  from len assms(1) obtain d cs' where cs: "cs = d # cs'"
    by (cases cs) auto
  have "T \<le> snd d"
    using win cs by (simp add: within_window_def)
  then have eq: "run_checks (cs @ [c]) i m w reqs = run_checks (cs @ [c]) i m w (reqs(i := None))"
    unfolding cs append_Cons by (rule run_checks_stale[OF assms(2)])
  have fresh: "entries_of (reqs(i := None)) i = []"
    by (simp add: entries_of_def)
  show "\<exists>r. fst (run_checks (cs @ [c]) i m w reqs)
                    = replicate (nat m) (True, None) @ [(False, Some r)] \<and> 0 < r"
    unfolding eq by (rule fresh_allows_max_then_denies[OF assms(1) fresh len win])
next
  assume d: "T \<le> snd d"
  have "capped m i (reqs(i := None))"
    using assms(1) by (simp add: capped_iff entries_of_def)
  then have "capped m i (snd (run_checks (d # ds) i m w (reqs(i := None))))"
    by (rule capped_run_checks)
  then show "window_count now w (snd (run_checks (d # ds) i m w reqs)) i \<le> m"
    unfolding run_checks_stale[OF assms(2) d] by (rule window_count_le_cap)
next
  assume "capped m i reqs"
  then have "capped m i (snd (run_checks ds i m w reqs))"
    by (rule capped_run_checks)
  then show "window_count now w (snd (run_checks ds i m w reqs)) i \<le> m"
    by (rule window_count_le_cap)
qed

text \<open>Limit 2, window 60 s, two entries from 0 s and 40 s, then calls at 100 s, 101 s and
  102.5 s.\<close>

theorem rate_limit_allows_max_then_denies_witness:
  "(1::int) \<le> 2 \<and> (0::real) \<le> 100 - real_of_int 60 \<and> (40::real) \<le> 100 - real_of_int 60
   \<and> entries_of [''a'' \<mapsto> [(0, 1), (40, 1)]] ''a'' = [(0, 1), (40, 1)]
   \<and> length [(100::real, 100::real), (101, 101)] = nat 2
   \<and> within_window 100 60 (100, 100) \<and> within_window 100 60 (101, 101)
   \<and> within_window 100 60 (205 / 2, 205 / 2)
   \<and> fst (run_checks ([(100, 100), (101, 101)] @ [(205 / 2, 205 / 2)]) ''a'' 2 60
            [''a'' \<mapsto> [(0, 1), (40, 1)]])
       = [(True, None), (True, None), (False, Some 58)]
   \<and> (100::real) \<le> snd (100::real, 100::real)
   \<and> window_count 103 60
        (snd (run_checks ((100, 100) # [(101, 101), (205 / 2, 205 / 2)]) ''a'' 2 60
                [''a'' \<mapsto> [(0, 1), (40, 1)]])) ''a''
       \<le> 2
   \<and> capped 2 ''a'' [''a'' \<mapsto> [(0, 1), (40, 1)]]
   \<and> window_count 41 60
        (snd (run_checks [(41, 41)] ''a'' 2 60 [''a'' \<mapsto> [(0, 1), (40, 1)]])) ''a''
       \<le> 2"
proof -
  let ?reqs = "[''a'' \<mapsto> [(0 :: real, 1 :: int), (40, 1)]]"
  have h1: "(1::int) \<le> 2" by simp
  have e: "entries_of ?reqs ''a'' = [(0, 1), (40, 1)]"
    by (simp add: entries_of_def)
  have s1: "(0::real) \<le> 100 - real_of_int 60" and s2: "(40::real) \<le> 100 - real_of_int 60"
    by simp_all
  have h2: "\<forall>e \<in> set (entries_of ?reqs ''a''). fst e \<le> 100 - real_of_int 60"
    unfolding e by simp
  have len: "length [(100::real, 100::real), (101, 101)] = nat 2" by simp
  have win: "within_window 100 60 (100, 100)" "within_window 100 60 (101, 101)"
    "within_window 100 60 (205 / 2, 205 / 2)"
    by (simp_all add: within_window_def)
  have ev: "fst (run_checks ([(100, 100), (101, 101)] @ [(205 / 2, 205 / 2)]) ''a'' 2 60 ?reqs)
       = [(True, None), (True, None), (False, Some 58)]"
    by (simp add: check_rate_limit_def check_locked_def clean_old_requests_def py_int_def
        Let_def)
  have st: "(100::real) \<le> snd (100::real, 100::real)" by simp
  have cap: "capped 2 ''a'' ?reqs"
    by (simp add: capped_def total_count_def e)
  note a = rate_limit_allows_max_then_denies
             [OF h1 h2, where d = "(100, 100)" and ds = "[(101, 101), (205 / 2, 205 / 2)]"
                and now = 103]
  note b = rate_limit_allows_max_then_denies
             [OF h1 h2, where ds = "[(41, 41)]" and now = 41]
  have "\<exists>r. fst (run_checks ([(100, 100), (101, 101)] @ [(205 / 2, 205 / 2)]) ''a'' 2 60 ?reqs)
              = replicate (nat 2) (True, None) @ [(False, Some r)] \<and> 0 < r"
    using rate_limit_allows_max_then_denies
            [OF h1 h2, where cs = "[(100, 100), (101, 101)]" and c = "(205 / 2, 205 / 2)"]
          len win
    by simp
  then have pos: "(0::int) < 58"
    unfolding ev by simp
  have w1: "window_count 103 60
        (snd (run_checks ((100, 100) # [(101, 101), (205 / 2, 205 / 2)]) ''a'' 2 60 ?reqs)) ''a''
       \<le> 2"
    using a st by blast
  have w2: "window_count 41 60 (snd (run_checks [(41, 41)] ''a'' 2 60 ?reqs)) ''a'' \<le> 2"
    using b cap by blast
  from h1 s1 s2 e len win ev pos st w1 cap w2 show ?thesis by (intro conjI)
qed

subsection \<open>The three tiers\<close>

lemma or_raise_denied:
  "check_rate_limit t tc k m w reqs = ((False, ra), reqs1) \<Longrightarrow>
   check_rate_limit_or_raise t tc k m w reqs =
     (Inl (RateLimitError (''Rate limit exceeded. Try again in '' @ str_optional_int ra
                             @ '' seconds.'') ra), reqs1)"
  by (simp add: check_rate_limit_or_raise_def)

lemma or_raise_allowed:
  "check_rate_limit t tc k m w reqs = ((True, ra), reqs1) \<Longrightarrow>
   check_rate_limit_or_raise t tc k m w reqs = (Inr (), reqs1)"
  by (simp add: check_rate_limit_or_raise_def)

lemma check_rate_limit_frame:
  "check_rate_limit t tc k m w reqs = (r, reqs1) \<Longrightarrow> j \<noteq> k \<Longrightarrow> reqs1 j = reqs j"
  using check_rate_limit_other[of j k t tc m w reqs] by simp

text \<open>
  Claim C9. With rate limiting enabled, the tiers run under the three keys
  \<open>minute:\<close>, \<open>hour:\<close> and \<open>day:\<close> followed by the identity, which are pairwise
  different, in this order. When the minute tier denies, the call ends with the error
  that carries the minute tier's \<open>retry_after\<close>, and the entries under the hour and day
  keys are what they were; when the minute tier allows and the hour tier denies, the
  error carries the hour tier's \<open>retry_after\<close> and the entries under the day key are
  what they were; otherwise the day tier decides.
\<close>

theorem check_all_rate_limits_short_circuit:
  assumes "RATE_LIMIT_ENABLED cfg"
  shows "''minute:'' @ i \<noteq> ''hour:'' @ i \<and> ''minute:'' @ i \<noteq> ''day:'' @ i
         \<and> ''hour:'' @ i \<noteq> ''day:'' @ i
   \<and> (check_rate_limit (fst cm) (snd cm) (''minute:'' @ i) (RATE_LIMIT_PER_MINUTE cfg) 60 reqs
          = ((False, ra), reqs_m) \<longrightarrow>
        check_all_rate_limits cfg cm ch cd i reqs
          = (Inl (RateLimitError (''Rate limit exceeded. Try again in '' @ str_optional_int ra
                                    @ '' seconds.'') ra), reqs_m)
        \<and> reqs_m (''hour:'' @ i) = reqs (''hour:'' @ i)
        \<and> reqs_m (''day:'' @ i) = reqs (''day:'' @ i))
   \<and> (check_rate_limit (fst cm) (snd cm) (''minute:'' @ i) (RATE_LIMIT_PER_MINUTE cfg) 60 reqs
          = ((True, ra_m), reqs_m) \<longrightarrow>
      check_rate_limit (fst ch) (snd ch) (''hour:'' @ i) (RATE_LIMIT_PER_HOUR cfg) 3600 reqs_m
          = ((False, ra), reqs_h) \<longrightarrow>
        check_all_rate_limits cfg cm ch cd i reqs
          = (Inl (RateLimitError (''Rate limit exceeded. Try again in '' @ str_optional_int ra
                                    @ '' seconds.'') ra), reqs_h)
        \<and> reqs_h (''day:'' @ i) = reqs (''day:'' @ i))
   \<and> (check_rate_limit (fst cm) (snd cm) (''minute:'' @ i) (RATE_LIMIT_PER_MINUTE cfg) 60 reqs
          = ((True, ra_m), reqs_m) \<longrightarrow>
      check_rate_limit (fst ch) (snd ch) (''hour:'' @ i) (RATE_LIMIT_PER_HOUR cfg) 3600 reqs_m
          = ((True, ra_h), reqs_h) \<longrightarrow>
      check_rate_limit (fst cd) (snd cd) (''day:'' @ i) (RATE_LIMIT_PER_DAY cfg) 86400 reqs_h
          = ((allowed, ra), reqs_d) \<longrightarrow>
        check_all_rate_limits cfg cm ch cd i reqs
          = (if allowed then Inr ()
             else Inl (RateLimitError (''Rate limit exceeded. Try again in ''
                                         @ str_optional_int ra @ '' seconds.'') ra), reqs_d))"
proof (intro conjI impI)
  show "''minute:'' @ i \<noteq> ''hour:'' @ i" "''minute:'' @ i \<noteq> ''day:'' @ i"
    "''hour:'' @ i \<noteq> ''day:'' @ i"
    by simp_all
next
  assume m: "check_rate_limit (fst cm) (snd cm) (''minute:'' @ i) (RATE_LIMIT_PER_MINUTE cfg) 60 reqs
          = ((False, ra), reqs_m)"
  show "check_all_rate_limits cfg cm ch cd i reqs
          = (Inl (RateLimitError (''Rate limit exceeded. Try again in '' @ str_optional_int ra
                                    @ '' seconds.'') ra), reqs_m)"
    using assms or_raise_denied[OF m]
    by (simp add: check_all_rate_limits_def check_rate_limit_per_minute_def)
  show "reqs_m (''hour:'' @ i) = reqs (''hour:'' @ i)"
    by (rule check_rate_limit_frame[OF m]) simp
  show "reqs_m (''day:'' @ i) = reqs (''day:'' @ i)"
    by (rule check_rate_limit_frame[OF m]) simp
next
  assume m: "check_rate_limit (fst cm) (snd cm) (''minute:'' @ i) (RATE_LIMIT_PER_MINUTE cfg) 60 reqs
          = ((True, ra_m), reqs_m)"
    and h: "check_rate_limit (fst ch) (snd ch) (''hour:'' @ i) (RATE_LIMIT_PER_HOUR cfg) 3600 reqs_m
          = ((False, ra), reqs_h)"
  show "check_all_rate_limits cfg cm ch cd i reqs
          = (Inl (RateLimitError (''Rate limit exceeded. Try again in '' @ str_optional_int ra
                                    @ '' seconds.'') ra), reqs_h)"
    using assms or_raise_allowed[OF m] or_raise_denied[OF h]
    by (simp add: check_all_rate_limits_def check_rate_limit_per_minute_def
        check_rate_limit_per_hour_def)
  have "reqs_h (''day:'' @ i) = reqs_m (''day:'' @ i)"
    by (rule check_rate_limit_frame[OF h]) simp
  moreover have "reqs_m (''day:'' @ i) = reqs (''day:'' @ i)"
    by (rule check_rate_limit_frame[OF m]) simp
  ultimately show "reqs_h (''day:'' @ i) = reqs (''day:'' @ i)" by simp
next
  assume m: "check_rate_limit (fst cm) (snd cm) (''minute:'' @ i) (RATE_LIMIT_PER_MINUTE cfg) 60 reqs
          = ((True, ra_m), reqs_m)"
    and h: "check_rate_limit (fst ch) (snd ch) (''hour:'' @ i) (RATE_LIMIT_PER_HOUR cfg) 3600 reqs_m
          = ((True, ra_h), reqs_h)"
    and d: "check_rate_limit (fst cd) (snd cd) (''day:'' @ i) (RATE_LIMIT_PER_DAY cfg) 86400 reqs_h
          = ((allowed, ra), reqs_d)"
  show "check_all_rate_limits cfg cm ch cd i reqs
          = (if allowed then Inr ()
             else Inl (RateLimitError (''Rate limit exceeded. Try again in ''
                                         @ str_optional_int ra @ '' seconds.'') ra), reqs_d)"
    using assms or_raise_allowed[OF m] or_raise_allowed[OF h] d
    by (simp add: check_all_rate_limits_def check_rate_limit_per_minute_def
        check_rate_limit_per_hour_def check_rate_limit_per_day_def check_rate_limit_or_raise_def)
qed

text \<open>
  A per-minute limit of 1 that is used up, with one entry under each of the three keys:
  the request is refused for 58 s by the minute tier and the hour and day entries stay.
\<close>

theorem check_all_rate_limits_short_circuit_witness:
  "RATE_LIMIT_ENABLED ((default_config ''k'')\<lparr>RATE_LIMIT_PER_MINUTE := 1\<rparr>)
   \<and> fst (check_rate_limit (205 / 2) (205 / 2) (''minute:'' @ ''ip'') 1 60
            [''minute:ip'' \<mapsto> [(100, 1)], ''hour:ip'' \<mapsto> [(100, 1)],
             ''day:ip'' \<mapsto> [(100, 1)]]) = (False, Some 58)
   \<and> fst (check_all_rate_limits ((default_config ''k'')\<lparr>RATE_LIMIT_PER_MINUTE := 1\<rparr>)
            (205 / 2, 205 / 2) (205 / 2, 205 / 2) (205 / 2, 205 / 2) ''ip''
            [''minute:ip'' \<mapsto> [(100, 1)], ''hour:ip'' \<mapsto> [(100, 1)],
             ''day:ip'' \<mapsto> [(100, 1)]])
       = Inl \<lparr>message = ''Rate limit exceeded. Try again in 58 seconds.'', status_code = 429,
              error_code = ''RATE_LIMIT_EXCEEDED'', details = [(''retry_after'', 58)]\<rparr>
   \<and> snd (check_all_rate_limits ((default_config ''k'')\<lparr>RATE_LIMIT_PER_MINUTE := 1\<rparr>)
            (205 / 2, 205 / 2) (205 / 2, 205 / 2) (205 / 2, 205 / 2) ''ip''
            [''minute:ip'' \<mapsto> [(100, 1)], ''hour:ip'' \<mapsto> [(100, 1)],
             ''day:ip'' \<mapsto> [(100, 1)]]) ''hour:ip'' = Some [(100, 1)]
   \<and> snd (check_all_rate_limits ((default_config ''k'')\<lparr>RATE_LIMIT_PER_MINUTE := 1\<rparr>)
            (205 / 2, 205 / 2) (205 / 2, 205 / 2) (205 / 2, 205 / 2) ''ip''
            [''minute:ip'' \<mapsto> [(100, 1)], ''hour:ip'' \<mapsto> [(100, 1)],
             ''day:ip'' \<mapsto> [(100, 1)]]) ''day:ip'' = Some [(100, 1)]"
proof -
  define cfg where "cfg = (default_config ''k'')\<lparr>RATE_LIMIT_PER_MINUTE := 1\<rparr>"
  define reqs :: requests where
    "reqs = [''minute:ip'' \<mapsto> [(100, 1)], ''hour:ip'' \<mapsto> [(100, 1)], ''day:ip'' \<mapsto> [(100, 1)]]"
  define reqs1 where
    "reqs1 = snd (check_rate_limit (205 / 2) (205 / 2) (''minute:'' @ ''ip'') 1 60 reqs)"
  have en: "RATE_LIMIT_ENABLED cfg"
    by (simp add: cfg_def default_config_def)
  have lim: "RATE_LIMIT_PER_MINUTE cfg = 1"
    by (simp add: cfg_def)
  have res: "fst (check_rate_limit (205 / 2) (205 / 2) (''minute:'' @ ''ip'') 1 60 reqs)
               = (False, Some 58)"
    by (simp add: reqs_def check_rate_limit_def check_locked_def clean_old_requests_def
        py_int_def Let_def)
  then have m: "check_rate_limit (fst (205 / 2, 205 / 2)) (snd (205 / 2, 205 / 2))
                  (''minute:'' @ ''ip'') (RATE_LIMIT_PER_MINUTE cfg) 60 reqs
                  = ((False, Some 58), reqs1)"
    by (simp add: lim reqs1_def prod_eq_iff)
  from check_all_rate_limits_short_circuit
         [OF en, where i = "''ip''" and cm = "(205 / 2, 205 / 2)" and reqs = reqs
            and ra = "Some 58" and reqs_m = reqs1 and ch = "(205 / 2, 205 / 2)"
            and cd = "(205 / 2, 205 / 2)"] m
  have all: "check_all_rate_limits cfg (205 / 2, 205 / 2) (205 / 2, 205 / 2) (205 / 2, 205 / 2)
               ''ip'' reqs
             = (Inl (RateLimitError (''Rate limit exceeded. Try again in ''
                                       @ str_optional_int (Some 58) @ '' seconds.'') (Some 58)),
                reqs1)"
    and hour: "reqs1 (''hour:'' @ ''ip'') = reqs (''hour:'' @ ''ip'')"
    and day: "reqs1 (''day:'' @ ''ip'') = reqs (''day:'' @ ''ip'')"
    by blast+
  have msg: "RateLimitError (''Rate limit exceeded. Try again in ''
                               @ str_optional_int (Some 58) @ '' seconds.'') (Some 58)
             = \<lparr>message = ''Rate limit exceeded. Try again in 58 seconds.'', status_code = 429,
                error_code = ''RATE_LIMIT_EXCEEDED'', details = [(''retry_after'', 58)]\<rparr>"
    by (simp add: RateLimitError_def str_optional_int_def str_int_def)
  have c3: "fst (check_all_rate_limits cfg (205 / 2, 205 / 2) (205 / 2, 205 / 2)
                   (205 / 2, 205 / 2) ''ip'' reqs)
              = Inl \<lparr>message = ''Rate limit exceeded. Try again in 58 seconds.'',
                     status_code = 429, error_code = ''RATE_LIMIT_EXCEEDED'',
                     details = [(''retry_after'', 58)]\<rparr>"
    unfolding all fst_conv msg by (rule refl)
  have c4: "snd (check_all_rate_limits cfg (205 / 2, 205 / 2) (205 / 2, 205 / 2)
                   (205 / 2, 205 / 2) ''ip'' reqs) ''hour:ip'' = Some [(100, 1)]"
    unfolding all snd_conv using hour by (simp add: reqs_def)
  have c5: "snd (check_all_rate_limits cfg (205 / 2, 205 / 2) (205 / 2, 205 / 2)
                   (205 / 2, 205 / 2) ''ip'' reqs) ''day:ip'' = Some [(100, 1)]"
    unfolding all snd_conv using day by (simp add: reqs_def)
  show ?thesis
    using en res c3 c4 c5 unfolding cfg_def reqs_def by (intro conjI)
qed

subsection \<open>Concurrent callers\<close>

lemma entries_clean_other:
  "j \<noteq> i \<Longrightarrow> entries_of (clean_old_requests t j w reqs) i = entries_of reqs i"
  by (simp add: entries_of_def clean_other)

lemma entries_check_locked_other:
  "j \<noteq> i \<Longrightarrow> entries_of (snd (check_locked t j m w reqs)) i = entries_of reqs i"
  by (simp add: entries_of_def check_locked_other)

lemma capped_run_section:
  assumes "capped m i reqs" and "uses_limit m i sec"
  shows "capped m i (snd (run_section sec reqs))"
proof (cases sec)
  case (Clean t j w)
  show ?thesis
  proof (cases "j = i")
    case True
    then show ?thesis using assms(1) Clean by (simp add: capped_clean)
  next
    case False
    then show ?thesis using assms(1) Clean by (simp add: capped_iff entries_clean_other)
  qed
next
  case (Check t j m' w)
  show ?thesis
  proof (cases "j = i")
    case True
    then have "m' = m" using assms(2) Check by simp
    then show ?thesis
      using assms(1) Check True capped_check_locked[of m i reqs t w]
      by (simp add: case_prod_beta)
  next
    case False
    then show ?thesis
      using assms(1) Check by (simp add: capped_iff entries_check_locked_other case_prod_beta)
  qed
qed

lemma snd_run_schedule_Cons:
  "snd (run_schedule ((caller, sec) # rest) reqs)
     = snd (run_schedule rest (snd (run_section sec reqs)))"
  by (cases "run_section sec reqs"; cases "fst (run_section sec reqs)")
     (auto split: prod.splits)

lemma capped_run_schedule:
  assumes "capped m i reqs" and "\<forall>x \<in> set sched. uses_limit m i (snd x)"
  shows "capped m i (snd (run_schedule sched reqs))"
  using assms
proof (induction sched arbitrary: reqs)
  case Nil
  then show ?case by simp
next
  case (Cons x sched)
  obtain caller sec where x: "x = (caller, sec)" by (cases x)
  have "capped m i (snd (run_section sec reqs))"
    using Cons.prems x by (intro capped_run_section) auto
  moreover have "\<forall>x \<in> set sched. uses_limit m i (snd x)"
    using Cons.prems(2) by simp
  ultimately have "capped m i (snd (run_schedule sched (snd (run_section sec reqs))))"
    by (rule Cons.IH)
  then show ?case
    unfolding x snd_run_schedule_Cons .
qed

text \<open>The two blocks of one caller, run back to back, are \<open>check_rate_limit\<close>.\<close>

lemma run_schedule_one_caller:
  "run_schedule (caller_sections a t tc i m w) reqs
     = ([(a, fst (check_rate_limit t tc i m w reqs))], snd (check_rate_limit t tc i m w reqs))"
  by (simp add: caller_sections_def critical_sections_def check_rate_limit_def
      split: prod.splits)

text \<open>
  Claim C7, as the code has it. Pruning runs under one acquisition of the lock, summing
  and appending together under a second one. Whatever the order in which the blocks of
  two concurrent callers of one identifier and one limit get the lock, a limiter whose
  counts for the identifier sum to at most the limit stays so: the callers cannot both
  see room and both append beyond the cap.
\<close>

theorem concurrent_callers_keep_cap:
  assumes "capped m i reqs"
    and "sched \<in> shuffles (caller_sections a t1 tc1 i m w1) (caller_sections b t2 tc2 i m w2)"
  shows "critical_sections t1 tc1 i m w1 = [Clean tc1 i w1, Check t1 i m w1]
         \<and> total_count (snd (run_schedule sched reqs)) i \<le> m
         \<and> window_count now w (snd (run_schedule sched reqs)) i \<le> m"
proof -
  have "set sched = set (caller_sections a t1 tc1 i m w1) \<union> set (caller_sections b t2 tc2 i m w2)"
    using assms(2) by (rule set_shuffles)
  then have "\<forall>x \<in> set sched. uses_limit m i (snd x)"
    by (auto simp: caller_sections_def critical_sections_def)
  with assms(1) have c: "capped m i (snd (run_schedule sched reqs))"
    by (rule capped_run_schedule)
  then show ?thesis
    using window_count_le_cap[OF c] by (simp add: capped_def critical_sections_def)
qed

text \<open>Limit 1, window 1 s: caller 0 reads the clock at 3 s, caller 1 read it at 0 s and
  gets the lock for its second block between the two blocks of caller 0.\<close>

theorem concurrent_callers_keep_cap_witness:
  "capped 1 ''ip'' Map.empty
   \<and> [(0, Clean 3 ''ip'' 1), (1, Clean 0 ''ip'' 1), (1, Check 0 ''ip'' 1 1), (0, Check 3 ''ip'' 1 1)]
       \<in> shuffles (caller_sections 0 3 3 ''ip'' 1 1) (caller_sections 1 0 0 ''ip'' 1 1)
   \<and> total_count (snd (run_schedule
        [(0, Clean 3 ''ip'' 1), (1, Clean 0 ''ip'' 1), (1, Check 0 ''ip'' 1 1),
         (0, Check 3 ''ip'' 1 1)] Map.empty)) ''ip'' \<le> 1
   \<and> window_count 3 1 (snd (run_schedule
        [(0, Clean 3 ''ip'' 1), (1, Clean 0 ''ip'' 1), (1, Check 0 ''ip'' 1 1),
         (0, Check 3 ''ip'' 1 1)] Map.empty)) ''ip'' \<le> 1"
proof -
  have c: "capped 1 ''ip'' Map.empty"
    by (simp add: capped_def total_count_def entries_of_def)
  have s: "[(0, Clean 3 ''ip'' 1), (1, Clean 0 ''ip'' 1), (1, Check 0 ''ip'' 1 1),
            (0, Check 3 ''ip'' 1 1)]
       \<in> shuffles (caller_sections 0 3 3 ''ip'' 1 1) (caller_sections 1 0 0 ''ip'' 1 1)"
    by (simp add: caller_sections_def critical_sections_def)
  from concurrent_callers_keep_cap[OF c s, of 3 1] c s show ?thesis
    by simp
qed

text \<open>
  Claim C7 as stated fails: the blocks of another caller can run between the pruning
  and the summing of one call. Caller 1 read the clock at 0 s and appends its entry
  after caller 0, at 3 s, has pruned; caller 0 then counts that stale entry and is
  denied (with a negative \<open>retry_after\<close>), although it is allowed in both orders in which
  the two calls run one after the other. A call therefore holds the lock twice.
\<close>

theorem single_lock_acquisition_counterexample:
  "[(0, Clean 3 ''ip'' 1), (1, Clean 0 ''ip'' 1), (1, Check 0 ''ip'' 1 1), (0, Check 3 ''ip'' 1 1)]
     \<in> shuffles (caller_sections 0 3 3 ''ip'' 1 1) (caller_sections 1 0 0 ''ip'' 1 1)
   \<and> map_of (fst (run_schedule
        [(0, Clean 3 ''ip'' 1), (1, Clean 0 ''ip'' 1), (1, Check 0 ''ip'' 1 1),
         (0, Check 3 ''ip'' 1 1)] Map.empty)) 0 = Some (False, Some (- 1))
   \<and> map_of (fst (run_schedule
        (caller_sections 0 3 3 ''ip'' 1 1 @ caller_sections 1 0 0 ''ip'' 1 1) Map.empty)) 0
       = Some (True, None)
   \<and> map_of (fst (run_schedule
        (caller_sections 1 0 0 ''ip'' 1 1 @ caller_sections 0 3 3 ''ip'' 1 1) Map.empty)) 0
       = Some (True, None)
   \<and> length (critical_sections 3 3 ''ip'' 1 1) = 2"
  by (simp add: caller_sections_def critical_sections_def check_locked_def
      clean_old_requests_def py_int_def)

section \<open>Properties of the security primitives and the session manager\<close>

subsection \<open>Evaluating the examples\<close>

lemmas example_defs = example_library_def alice_def bob_def carol_def example_store_def
  example_draws_def

lemmas run_defs = login_user_def register_user_def refresh_access_token_def logout_user_def
  issue_tokens_def verify_password_def hash_password_def create_refresh_token_def
  enforce_session_limit_def live_tokens_def revoke_refresh_token_def get_refresh_token_def
  get_user_by_username_def get_user_by_email_def get_user_by_id_def create_user_def next_id_def
  TokenResponse_def is_revoked_in_def

lemmas example_defs2 = example_defs session_def two_sessions_def default_config_def

subsection \<open>Password verification\<close>

lemma verify_password_cases:
  "verify_password lib p h =
     (case str_encode lib p of
        Inl e \<Rightarrow> Inr False
      | Inr pb \<Rightarrow>
          (case str_encode lib h of
             Inl e \<Rightarrow> Inr False
           | Inr hb \<Rightarrow>
               (case bcrypt_checkpw lib pb hb of Inl e \<Rightarrow> Inr False | Inr b \<Rightarrow> Inr b)))"
  by (simp add: verify_password_def split: sum.splits)

lemma verify_password_returns: "\<exists>b. verify_password lib p h = Inr b"
  by (auto simp: verify_password_cases split: sum.splits)


text \<open>
  Claim C10. Whatever the library calls do, \<open>verify_password\<close> returns a boolean and
  raises nothing; it returns \<open>False\<close> when encoding either string fails or
  \<open>bcrypt.checkpw\<close> raises, as it does on a malformed stored hash. A login against a
  user whose stored hash makes \<open>checkpw\<close> raise therefore fails with the same
  \<open>ValueError\<close> as a wrong password, and leaves the store as it was.
\<close>

theorem verify_password_total:
  "(\<exists>b. verify_password lib p h = Inr b)
   \<and> (\<forall>e. str_encode lib p = Inl e \<longrightarrow> verify_password lib p h = Inr False)
   \<and> (\<forall>e. str_encode lib h = Inl e \<longrightarrow> verify_password lib p h = Inr False)
   \<and> (\<forall>pb hb e. str_encode lib p = Inr pb \<longrightarrow> str_encode lib h = Inr hb \<longrightarrow>
          bcrypt_checkpw lib pb hb = Inl e \<longrightarrow> verify_password lib p h = Inr False)
   \<and> (\<forall>u pb hb e. get_user_by_username db name = Some u \<longrightarrow>
          str_encode lib p = Inr pb \<longrightarrow> str_encode lib (u_hashed_password u) = Inr hb \<longrightarrow>
          bcrypt_checkpw lib pb hb = Inl e \<longrightarrow>
          login_user cfg lib d db name p ua ip
            = (Inl (ValueError ''Invalid username or password''), db))"
proof (intro conjI allI impI)
  show "\<exists>b. verify_password lib p h = Inr b"
    by (rule verify_password_returns)
next
  fix e assume "str_encode lib p = Inl e"
  then show "verify_password lib p h = Inr False"
    by (simp add: verify_password_cases)
next
  fix e assume "str_encode lib h = Inl e"
  then show "verify_password lib p h = Inr False"
    by (simp add: verify_password_cases split: sum.splits)
next
  fix pb hb e
  assume "str_encode lib p = Inr pb" "str_encode lib h = Inr hb" "bcrypt_checkpw lib pb hb = Inl e"
  then show "verify_password lib p h = Inr False"
    by (simp add: verify_password_cases)
next
  fix u pb hb e
  assume u: "get_user_by_username db name = Some u"
    and "str_encode lib p = Inr pb" "str_encode lib (u_hashed_password u) = Inr hb"
      "bcrypt_checkpw lib pb hb = Inl e"
  then have "verify_password lib p (u_hashed_password u) = Inr False"
    by (simp add: verify_password_cases)
  with u show "login_user cfg lib d db name p ua ip
            = (Inl (ValueError ''Invalid username or password''), db)"
    by (simp add: login_user_def)
qed

text \<open>User \<open>bob\<close> has the stored hash \<open>corrupt\<close>, on which \<open>checkpw\<close> raises.\<close>

theorem verify_password_total_witness:
  "str_encode example_library ''x'' = Inr ''x''
   \<and> str_encode example_library (u_hashed_password bob) = Inr ''corrupt''
   \<and> bcrypt_checkpw example_library ''x'' ''corrupt'' = Inl (ValueError ''Invalid salt'')
   \<and> verify_password example_library ''x'' ''corrupt'' = Inr False
   \<and> get_user_by_username example_store ''bob'' = Some bob
   \<and> login_user (default_config ''k'') example_library (example_draws 0 ''t'') example_store
         ''bob'' ''x'' None None
       = (Inl (ValueError ''Invalid username or password''), example_store)"
proof -
  have a: "str_encode example_library ''x'' = Inr ''x''"
    and b: "str_encode example_library (u_hashed_password bob) = Inr ''corrupt''"
    and c: "bcrypt_checkpw example_library ''x'' ''corrupt'' = Inl (ValueError ''Invalid salt'')"
    and u: "get_user_by_username example_store ''bob'' = Some bob"
    by (simp_all add: example_defs get_user_by_username_def)
  have b': "str_encode example_library ''corrupt'' = Inr ''corrupt''"
    by (simp add: example_defs)
  from verify_password_total
         [of example_library "''x''" "''corrupt''" example_store "''bob''" "default_config ''k''"
             "example_draws 0 ''t''" None None]
  have "verify_password example_library ''x'' ''corrupt'' = Inr False"
    and "login_user (default_config ''k'') example_library (example_draws 0 ''t'') example_store
           ''bob'' ''x'' None None
         = (Inl (ValueError ''Invalid username or password''), example_store)"
    using a b b' c u by blast+
  with a b c u show ?thesis by blast
qed

subsection \<open>Login failures\<close>

lemma issue_tokens_error:
  "fst (issue_tokens cfg d db u ua ip) = Inl e \<Longrightarrow> e = IntegrityError ''refresh_tokens''"
  by (auto simp: issue_tokens_def create_refresh_token_def Let_def split: sum.splits if_splits)


text \<open>
  Claim C6. A login for a username that does not exist and a login for an existing user
  with a password that does not verify end with the same error,
  \<open>ValueError('Invalid username or password')\<close>, and the same (unchanged) store; the
  first components of the two outcomes are equal whatever the other inputs are. The
  error \<open>ValueError('Account is inactive')\<close> is returned exactly when the user exists,
  the password verifies and \<open>is_active\<close> is false.
\<close>

theorem login_failures_indistinguishable:
  "(get_user_by_username db name = None \<longrightarrow>
      login_user cfg lib d db name password ua ip
        = (Inl (ValueError ''Invalid username or password''), db))
   \<and> (\<forall>u. get_user_by_username db name = Some u \<longrightarrow>
          verify_password lib password (u_hashed_password u) = Inr False \<longrightarrow>
          login_user cfg lib d db name password ua ip
            = (Inl (ValueError ''Invalid username or password''), db))
   \<and> (\<forall>u'. get_user_by_username db name = None \<longrightarrow>
          get_user_by_username db' name' = Some u' \<longrightarrow>
          verify_password lib' password' (u_hashed_password u') = Inr False \<longrightarrow>
          fst (login_user cfg lib d db name password ua ip)
            = fst (login_user cfg' lib' d' db' name' password' ua' ip'))
   \<and> (fst (login_user cfg lib d db name password ua ip) = Inl (ValueError ''Account is inactive'')
        \<longleftrightarrow> (\<exists>u. get_user_by_username db name = Some u
                  \<and> verify_password lib password (u_hashed_password u) = Inr True
                  \<and> \<not> u_is_active u))"
proof (intro conjI allI impI)
  assume "get_user_by_username db name = None"
  then show "login_user cfg lib d db name password ua ip
        = (Inl (ValueError ''Invalid username or password''), db)"
    by (simp add: login_user_def)
next
  fix u
  assume "get_user_by_username db name = Some u"
    "verify_password lib password (u_hashed_password u) = Inr False"
  then show "login_user cfg lib d db name password ua ip
            = (Inl (ValueError ''Invalid username or password''), db)"
    by (simp add: login_user_def)
next
  fix u'
  assume "get_user_by_username db name = None" "get_user_by_username db' name' = Some u'"
    "verify_password lib' password' (u_hashed_password u') = Inr False"
  then show "fst (login_user cfg lib d db name password ua ip)
            = fst (login_user cfg' lib' d' db' name' password' ua' ip')"
    by (simp add: login_user_def)
next
  show "fst (login_user cfg lib d db name password ua ip) = Inl (ValueError ''Account is inactive'')
        \<longleftrightarrow> (\<exists>u. get_user_by_username db name = Some u
                  \<and> verify_password lib password (u_hashed_password u) = Inr True
                  \<and> \<not> u_is_active u)"
  proof (cases "get_user_by_username db name")
    case None
    then show ?thesis by (simp add: login_user_def)
  next
    case (Some u)
    obtain b where b: "verify_password lib password (u_hashed_password u) = Inr b"
      using verify_password_returns by blast
    show ?thesis
    proof (cases "b \<and> u_is_active u")
      case True
      then show ?thesis
        using Some b issue_tokens_error[of cfg d db u ua ip "ValueError ''Account is inactive''"]
        by (auto simp: login_user_def)
    next
      case False
      then show ?thesis
        using Some b by (auto simp: login_user_def)
    qed
  qed
qed

text \<open>An unknown name, \<open>alice\<close> with a wrong password, and the inactive \<open>carol\<close> with
  her password.\<close>

theorem login_failures_indistinguishable_witness:
  "get_user_by_username example_store ''nobody'' = None
   \<and> get_user_by_username example_store ''alice'' = Some alice
   \<and> verify_password example_library ''wrong'' (u_hashed_password alice) = Inr False
   \<and> login_user (default_config ''k'') example_library (example_draws 0 ''t'') example_store
         ''nobody'' ''wrong'' None None
       = (Inl (ValueError ''Invalid username or password''), example_store)
   \<and> fst (login_user (default_config ''k'') example_library (example_draws 0 ''t'') example_store
         ''nobody'' ''wrong'' None None)
       = fst (login_user (default_config ''k'') example_library (example_draws 0 ''t'')
                example_store ''alice'' ''wrong'' None None)
   \<and> get_user_by_username example_store ''carol'' = Some carol
   \<and> verify_password example_library ''Passw0rd3'' (u_hashed_password carol) = Inr True
   \<and> fst (login_user (default_config ''k'') example_library (example_draws 0 ''t'') example_store
         ''carol'' ''Passw0rd3'' None None) = Inl (ValueError ''Account is inactive'')"
proof -
  have n: "get_user_by_username example_store ''nobody'' = None"
    and a: "get_user_by_username example_store ''alice'' = Some alice"
    and c: "get_user_by_username example_store ''carol'' = Some carol"
    by (simp_all add: example_defs get_user_by_username_def)
  have va: "verify_password example_library ''wrong'' (u_hashed_password alice) = Inr False"
    and vc: "verify_password example_library ''Passw0rd3'' (u_hashed_password carol) = Inr True"
    by (simp_all add: example_defs verify_password_def)
  have ia: "\<not> u_is_active carol"
    by (simp add: carol_def)
  from login_failures_indistinguishable
         [of example_store "''nobody''" "default_config ''k''" example_library
             "example_draws 0 ''t''" "''wrong''" None None example_store "''alice''"
             example_library "''wrong''" "default_config ''k''" "example_draws 0 ''t''" None None]
       n a va
  have 1: "login_user (default_config ''k'') example_library (example_draws 0 ''t'') example_store
         ''nobody'' ''wrong'' None None
       = (Inl (ValueError ''Invalid username or password''), example_store)"
    and 2: "fst (login_user (default_config ''k'') example_library (example_draws 0 ''t'')
                   example_store ''nobody'' ''wrong'' None None)
       = fst (login_user (default_config ''k'') example_library (example_draws 0 ''t'')
                example_store ''alice'' ''wrong'' None None)"
    by blast+
  from login_failures_indistinguishable
         [of example_store "''carol''" "default_config ''k''" example_library
             "example_draws 0 ''t''" "''Passw0rd3''" None None]
       c vc ia
  have 3: "fst (login_user (default_config ''k'') example_library (example_draws 0 ''t'')
                  example_store ''carol'' ''Passw0rd3'' None None)
             = Inl (ValueError ''Account is inactive'')"
    by blast
  from n a va 1 2 c vc 3 show ?thesis by blast
qed

subsection \<open>Logout\<close>

lemma find_map_same:
  assumes "\<And>x. P (f x) = P x"
  shows "find P (map f xs) = map_option f (find P xs)"
  using assms by (induction xs) auto

lemma get_after_revoke:
  "get_refresh_token (revoke_refresh_token db tok') tok
     = map_option (\<lambda>r. if t_token r = tok' then r\<lparr>t_is_revoked := True\<rparr> else r)
         (get_refresh_token db tok)"
  unfolding get_refresh_token_def revoke_refresh_token_def
  by (simp add: find_map_same)

lemma find_token_eq: "find (\<lambda>r. t_token r = tok) rs = Some r \<Longrightarrow> t_token r = tok"
  by (induction rs) (auto split: if_splits)

lemma get_refresh_token_token: "get_refresh_token db tok = Some r \<Longrightarrow> t_token r = tok"
  unfolding get_refresh_token_def by (rule find_token_eq)

text \<open>
  Claim C5. \<open>logout_user\<close> fails with \<open>ValueError('Invalid refresh token')\<close>, and changes
  nothing, when the store has no record of the token or the record belongs to another
  user. For a record that belongs to the caller and is already revoked it returns
  \<open>True\<close> and changes nothing. For every record that belongs to the caller the call
  returns \<open>True\<close>, the record is revoked afterwards, and a second call with the same
  token returns \<open>True\<close> as well and changes nothing more.
\<close>

theorem logout_user_idempotent:
  "((get_refresh_token db tok = None
       \<or> (\<exists>r. get_refresh_token db tok = Some r \<and> t_user_id r \<noteq> uid)) \<longrightarrow>
      logout_user db tok uid = (Inl (ValueError ''Invalid refresh token''), db))
   \<and> (\<forall>r. get_refresh_token db tok = Some r \<longrightarrow> t_user_id r = uid \<longrightarrow> t_is_revoked r \<longrightarrow>
          logout_user db tok uid = (Inr True, db))
   \<and> (\<forall>r. get_refresh_token db tok = Some r \<longrightarrow> t_user_id r = uid \<longrightarrow>
          fst (logout_user db tok uid) = Inr True
          \<and> get_refresh_token (snd (logout_user db tok uid)) tok
              = Some (r\<lparr>t_is_revoked := True\<rparr>)
          \<and> logout_user (snd (logout_user db tok uid)) tok uid
              = (Inr True, snd (logout_user db tok uid)))"
proof (intro conjI allI impI)
  assume "get_refresh_token db tok = None
       \<or> (\<exists>r. get_refresh_token db tok = Some r \<and> t_user_id r \<noteq> uid)"
  then show "logout_user db tok uid = (Inl (ValueError ''Invalid refresh token''), db)"
    by (auto simp: logout_user_def)
next
  fix r
  assume "get_refresh_token db tok = Some r" "t_user_id r = uid" "t_is_revoked r"
  then show "logout_user db tok uid = (Inr True, db)"
    by (simp add: logout_user_def)
next
  fix r
  assume r: "get_refresh_token db tok = Some r" and u: "t_user_id r = uid"
  show "fst (logout_user db tok uid) = Inr True"
    using r u by (simp add: logout_user_def)
  have tok: "t_token r = tok"
    using r by (rule get_refresh_token_token)
  show g: "get_refresh_token (snd (logout_user db tok uid)) tok
              = Some (r\<lparr>t_is_revoked := True\<rparr>)"
  proof (cases "t_is_revoked r")
    case True
    then have "r\<lparr>t_is_revoked := True\<rparr> = r" by simp
    then show ?thesis using r u True by (simp add: logout_user_def)
  next
    case False
    then show ?thesis using r u tok by (simp add: logout_user_def get_after_revoke)
  qed
  show "logout_user (snd (logout_user db tok uid)) tok uid
              = (Inr True, snd (logout_user db tok uid))"
    unfolding logout_user_def[of "snd (logout_user db tok uid)"] g
    using u by simp
qed

text \<open>A token that is not stored, the token \<open>s1\<close> of user 1 presented by user 2, and
  two logouts of user 1 with \<open>s1\<close>.\<close>

theorem logout_user_idempotent_witness:
  "get_refresh_token two_sessions ''nope'' = None
   \<and> logout_user two_sessions ''nope'' 1 = (Inl (ValueError ''Invalid refresh token''), two_sessions)
   \<and> get_refresh_token two_sessions ''s1'' = Some (session 1 ''s1'' 1 10)
   \<and> t_user_id (session 1 ''s1'' 1 10) = 1
   \<and> logout_user two_sessions ''s1'' 2 = (Inl (ValueError ''Invalid refresh token''), two_sessions)
   \<and> fst (logout_user two_sessions ''s1'' 1) = Inr True
   \<and> get_refresh_token (snd (logout_user two_sessions ''s1'' 1)) ''s1''
       = Some ((session 1 ''s1'' 1 10)\<lparr>t_is_revoked := True\<rparr>)
   \<and> logout_user (snd (logout_user two_sessions ''s1'' 1)) ''s1'' 1
       = (Inr True, snd (logout_user two_sessions ''s1'' 1))"
proof -
  have none: "get_refresh_token two_sessions ''nope'' = None"
    and some: "get_refresh_token two_sessions ''s1'' = Some (session 1 ''s1'' 1 10)"
    and owner: "t_user_id (session 1 ''s1'' 1 10) = 1"
    by (simp_all add: get_refresh_token_def two_sessions_def session_def)
  from logout_user_idempotent[of two_sessions "''nope''" 1] none
  have a: "logout_user two_sessions ''nope'' 1
             = (Inl (ValueError ''Invalid refresh token''), two_sessions)"
    by blast
  from logout_user_idempotent[of two_sessions "''s1''" 2] some owner
  have b: "logout_user two_sessions ''s1'' 2
             = (Inl (ValueError ''Invalid refresh token''), two_sessions)"
    by fastforce
  from logout_user_idempotent[of two_sessions "''s1''" 1] some owner
  have c: "fst (logout_user two_sessions ''s1'' 1) = Inr True"
    "get_refresh_token (snd (logout_user two_sessions ''s1'' 1)) ''s1''
       = Some ((session 1 ''s1'' 1 10)\<lparr>t_is_revoked := True\<rparr>)"
    "logout_user (snd (logout_user two_sessions ''s1'' 1)) ''s1'' 1
       = (Inr True, snd (logout_user two_sessions ''s1'' 1))"
    by blast+
  from none some owner a b c show ?thesis by blast
qed

subsection \<open>Access tokens\<close>

lemma map_of_dict_update:
  "map_of (dict_update k v d) = (map_of d)(k \<mapsto> v)"
  by (induction d) (auto simp: fun_eq_iff)

lemma create_access_token_claims:
  "create_access_token cfg now_exp now_iat data expires_delta = Signed payload key alg \<Longrightarrow>
     key = SECRET_KEY cfg \<and> alg = ALGORITHM cfg
     \<and> map_of payload ''type'' = Some (Str ''access'')
     \<and> map_of payload ''iat'' = Some (Time now_iat)
     \<and> map_of payload ''exp''
         = Some (Time (now_exp + (case expires_delta of
                                    None \<Rightarrow> ACCESS_TOKEN_EXPIRE_MINUTES cfg * 60000000
                                  | Some delta \<Rightarrow>
                                      if delta \<noteq> 0 then delta
                                      else ACCESS_TOKEN_EXPIRE_MINUTES cfg * 60000000)))"
  by (auto simp: create_access_token_def jwt_encode_def Let_def map_of_dict_update
      split: option.splits)

lemma decode_access_token_cases:
  "decode_access_token cfg now (Other s) = Inl (DecodeError ''Not enough segments'')"
  "alg \<noteq> ALGORITHM cfg \<Longrightarrow>
     decode_access_token cfg now (Signed payload key alg) = Inl InvalidAlgorithmError"
  "alg = ALGORITHM cfg \<Longrightarrow> key \<noteq> SECRET_KEY cfg \<Longrightarrow>
     decode_access_token cfg now (Signed payload key alg) = Inl InvalidSignatureError"
  "alg = ALGORITHM cfg \<Longrightarrow> key = SECRET_KEY cfg \<Longrightarrow> map_of payload ''exp'' = Some (Time e) \<Longrightarrow>
     now > e \<Longrightarrow> decode_access_token cfg now (Signed payload key alg) = Inl ExpiredSignatureError"
  "alg = ALGORITHM cfg \<Longrightarrow> key = SECRET_KEY cfg \<Longrightarrow> map_of payload ''exp'' = Some (Time e) \<Longrightarrow>
     \<not> now > e \<Longrightarrow> map_of payload ''type'' \<noteq> Some (Str ''access'') \<Longrightarrow>
     decode_access_token cfg now (Signed payload key alg)
       = Inl (InvalidTokenError ''Invalid token type'')"
  "alg = ALGORITHM cfg \<Longrightarrow> key = SECRET_KEY cfg \<Longrightarrow> map_of payload ''exp'' = Some (Time e) \<Longrightarrow>
     \<not> now > e \<Longrightarrow> map_of payload ''type'' = Some (Str ''access'') \<Longrightarrow>
     decode_access_token cfg now (Signed payload key alg) = Inr payload"
  by (simp_all add: decode_access_token_def jwt_decode_def)


text \<open>
  Claim C8 at a zero lifetime. \<open>timedelta(0)\<close> is false in \<open>if expires_delta:\<close>, so the
  token issued with \<open>expires_delta = timedelta(0)\<close> at 1000 microseconds expires after
  the configured thirty minutes and not at \<open>now + ttl = 1000\<close>; verified at 2000
  microseconds it is accepted, where a token that expired at 1000 would be refused.
\<close>

theorem create_access_token_zero_delta:
  "create_access_token (default_config ''k'') 1000 1001 [(''sub'', Str ''1'')] (Some 0)
     = Signed [(''sub'', Str ''1''), (''exp'', Time (1000 + 30 * 60000000)),
               (''iat'', Time 1001), (''type'', Str ''access'')] ''k'' ''HS256''
   \<and> (1000::int) + 30 * 60000000 \<noteq> 1000 + 0
   \<and> decode_access_token (default_config ''k'') 2000
        (create_access_token (default_config ''k'') 1000 1001 [(''sub'', Str ''1'')] (Some 0))
       = Inr [(''sub'', Str ''1''), (''exp'', Time (1000 + 30 * 60000000)),
              (''iat'', Time 1001), (''type'', Str ''access'')]"
  by (simp add: create_access_token_def default_config_def jwt_encode_def
      decode_access_token_def jwt_decode_def)

subsection \<open>Revocation is permanent\<close>

lemma refresh_of_revoked:
  "is_revoked_in db tok \<Longrightarrow>
   refresh_access_token cfg d db tok ua ip rot
     = (Inl (ValueError ''Refresh token has been revoked''), db)"
  by (auto simp: is_revoked_in_def refresh_access_token_def split: option.splits)

lemma revoked_after_revoke:
  "is_revoked_in db tok \<Longrightarrow> is_revoked_in (revoke_refresh_token db tok') tok"
  by (auto simp: is_revoked_in_def get_after_revoke split: option.splits)

lemma revoke_makes_revoked:
  "get_refresh_token db tok \<noteq> None \<Longrightarrow> is_revoked_in (revoke_refresh_token db tok) tok"
  by (auto simp: is_revoked_in_def get_after_revoke dest: get_refresh_token_token
      split: option.splits)

lemma revoked_after_enforce:
  "is_revoked_in db tok \<Longrightarrow> is_revoked_in (enforce_session_limit cfg now db uid) tok"
  by (simp add: enforce_session_limit_def Let_def revoked_after_revoke split: option.splits)

lemma find_append:
  "find P (xs @ ys) = (case find P xs of None \<Rightarrow> find P ys | Some x \<Rightarrow> Some x)"
  by (induction xs) auto

lemma get_after_append:
  "get_refresh_token (db\<lparr>refresh_tokens := refresh_tokens db @ [r]\<rparr>) tok
     = (case get_refresh_token db tok of
          None \<Rightarrow> if t_token r = tok then Some r else None
        | Some x \<Rightarrow> Some x)"
  by (simp add: get_refresh_token_def find_append split: option.splits)

lemma revoked_after_append:
  "is_revoked_in db tok \<Longrightarrow> is_revoked_in (db\<lparr>refresh_tokens := refresh_tokens db @ [r]\<rparr>) tok"
  by (auto simp: is_revoked_in_def get_after_append split: option.splits)

lemma revoked_after_create_token:
  assumes "is_revoked_in db tok"
    and "create_refresh_token cfg now db uid new days ua ip = Inr db'"
  shows "is_revoked_in db' tok"
  using assms
  by (auto simp: create_refresh_token_def Let_def split: if_splits
      intro!: revoked_after_append revoked_after_enforce)

lemma get_after_create_user:
  "create_user db name addr hashed = Inr (u, db') \<Longrightarrow>
   get_refresh_token db' tok = get_refresh_token db tok"
  by (auto simp: create_user_def get_refresh_token_def Let_def split: if_splits)

lemma revoked_after_create_user:
  "is_revoked_in db tok \<Longrightarrow> create_user db name addr hashed = Inr (u, db') \<Longrightarrow>
   is_revoked_in db' tok"
  by (simp add: is_revoked_in_def get_after_create_user)

lemma revoked_after_issue_tokens:
  "is_revoked_in db tok \<Longrightarrow> is_revoked_in (snd (issue_tokens cfg d db u ua ip)) tok"
  by (auto simp: issue_tokens_def Let_def split: sum.splits
      intro: revoked_after_create_token)

lemma revoked_after_register:
  "is_revoked_in db tok \<Longrightarrow>
   is_revoked_in (snd (register_user cfg lib d db name addr pw ua ip)) tok"
  by (auto simp: register_user_def split: sum.splits
      intro: revoked_after_issue_tokens revoked_after_create_user)

lemma revoked_after_login:
  "is_revoked_in db tok \<Longrightarrow>
   is_revoked_in (snd (login_user cfg lib d db name pw ua ip)) tok"
  by (auto simp: login_user_def split: sum.splits option.splits
      intro: revoked_after_issue_tokens)

lemma revoked_after_refresh:
  "is_revoked_in db tok \<Longrightarrow>
   is_revoked_in (snd (refresh_access_token cfg d db tok' ua ip rot)) tok"
  by (auto simp: refresh_access_token_def Let_def split: sum.splits option.splits
      intro: revoked_after_create_token revoked_after_revoke)

lemma revoked_after_logout:
  "is_revoked_in db tok \<Longrightarrow> is_revoked_in (snd (logout_user db tok' uid)) tok"
  by (auto simp: logout_user_def split: option.splits intro: revoked_after_revoke)

lemma revoked_after_call:
  "is_revoked_in db tok \<Longrightarrow> is_revoked_in (run_call cfg lib c db) tok"
  by (cases c)
     (simp_all add: revoked_after_register revoked_after_login revoked_after_refresh
        revoked_after_logout)

lemma revoked_after_calls:
  "is_revoked_in db tok \<Longrightarrow> is_revoked_in (run_calls cfg lib cs db) tok"
  by (induction cs arbitrary: db) (simp_all add: revoked_after_call)

lemma get_user_by_id_id: "get_user_by_id db uid = Some u \<Longrightarrow> u_id u = uid"
  by (auto simp: get_user_by_id_def find_Some_iff)

lemma get_none_after_revoke:
  "get_refresh_token db tok = None \<Longrightarrow> get_refresh_token (revoke_refresh_token db tok') tok = None"
  by (simp add: get_after_revoke)

lemma get_none_after_enforce:
  "get_refresh_token db tok = None \<Longrightarrow>
   get_refresh_token (enforce_session_limit cfg now db uid) tok = None"
  by (simp add: enforce_session_limit_def Let_def get_none_after_revoke split: option.splits)

lemma create_refresh_token_stores:
  assumes "create_refresh_token cfg now db uid new days ua ip = Inr db'"
  shows "get_refresh_token db new = None
         \<and> (\<exists>r. get_refresh_token db' new = Some r \<and> \<not> t_is_revoked r \<and> t_user_id r = uid
                \<and> t_created_at r = now \<and> t_expires_at r = now + days * 86400000000)"
proof -
  have none: "get_refresh_token db new = None"
    using assms by (auto simp: create_refresh_token_def split: if_splits)
  then have "get_refresh_token (enforce_session_limit cfg now db uid) new = None"
    by (rule get_none_after_enforce)
  then show ?thesis
    using assms none
    by (auto simp: create_refresh_token_def Let_def get_after_append split: if_splits)
qed

text \<open>
  Claim C4. When \<open>refresh_access_token\<close> with rotation succeeds, the presented
  credential is revoked in the store it leaves behind; the credential it returns is the
  newly generated string, which differs from the presented one, was not stored before
  and is stored now, not revoked, for the same user. After any further calls of the
  session manager, a refresh that presents the original token fails with
  \<open>ValueError('Refresh token has been revoked')\<close>.
\<close>

theorem rotation_is_single_use:
  assumes "refresh_access_token cfg d db tok ua ip True = (Inr resp, db')"
  shows "is_revoked_in db' tok
     \<and> refresh_token_out resp = fresh_token d \<and> fresh_token d \<noteq> tok
     \<and> get_refresh_token db (fresh_token d) = None
     \<and> (\<exists>r r'. get_refresh_token db tok = Some r \<and> \<not> t_is_revoked r
            \<and> get_refresh_token db' (fresh_token d) = Some r'
            \<and> \<not> t_is_revoked r' \<and> t_user_id r' = t_user_id r)
     \<and> refresh_access_token cfg2 d2 (run_calls cfg2 lib cs db') tok ua2 ip2 rot2
         = (Inl (ValueError ''Refresh token has been revoked''), run_calls cfg2 lib cs db')"
proof -
  from assms obtain r u where
    r: "get_refresh_token db tok = Some r" and nr: "\<not> t_is_revoked r"
    and u: "get_user_by_id db (t_user_id r) = Some u"
    and cr: "create_refresh_token cfg (clock_store d) (revoke_refresh_token db tok) (u_id u)
               (fresh_token d) (REFRESH_TOKEN_EXPIRE_DAYS cfg) ua ip = Inr db'"
    and resp: "refresh_token_out resp = fresh_token d"
    by (auto simp: refresh_access_token_def Let_def TokenResponse_def
        split: option.splits if_splits sum.splits)
  let ?db1 = "revoke_refresh_token db tok"
  have rev1: "is_revoked_in ?db1 tok"
    using r by (intro revoke_makes_revoked) simp
  have rev: "is_revoked_in db' tok"
    using rev1 cr by (rule revoked_after_create_token)
  from create_refresh_token_stores[OF cr] obtain r' where
    none1: "get_refresh_token ?db1 (fresh_token d) = None"
    and r': "get_refresh_token db' (fresh_token d) = Some r'" "\<not> t_is_revoked r'"
      "t_user_id r' = u_id u"
    by blast
  have none: "get_refresh_token db (fresh_token d) = None"
    using none1 by (simp add: get_after_revoke)
  have neq: "fresh_token d \<noteq> tok"
    using none r by auto
  have uid: "u_id u = t_user_id r"
    using u by (rule get_user_by_id_id)
  have later: "refresh_access_token cfg2 d2 (run_calls cfg2 lib cs db') tok ua2 ip2 rot2
         = (Inl (ValueError ''Refresh token has been revoked''), run_calls cfg2 lib cs db')"
    by (intro refresh_of_revoked revoked_after_calls rev)
  show ?thesis
    using rev resp neq none r nr r' uid later by auto
qed

text \<open>Rotating \<open>s1\<close> into \<open>s3\<close>, a logout with \<open>s3\<close>, and a replay of \<open>s1\<close>.\<close>

theorem rotation_is_single_use_witness:
  "fst (refresh_access_token (default_config ''k'') (example_draws 30 ''s3'') two_sessions
          ''s1'' None None True)
     = Inr (TokenResponse
              (create_access_token (default_config ''k'') 30 30
                 [(''sub'', Str ''1''), (''username'', Str ''alice'')] None) ''s3'')
   \<and> is_revoked_in (snd (refresh_access_token (default_config ''k'') (example_draws 30 ''s3'')
                            two_sessions ''s1'' None None True)) ''s1''
   \<and> ''s3'' \<noteq> ''s1''
   \<and> fst (refresh_access_token (default_config ''k'') (example_draws 50 ''s5'')
            (run_calls (default_config ''k'') example_library [Logout ''s3'' 1]
               (snd (refresh_access_token (default_config ''k'') (example_draws 30 ''s3'')
                       two_sessions ''s1'' None None True)))
            ''s1'' None None True)
       = Inl (ValueError ''Refresh token has been revoked'')"
proof -
  let ?cfg = "default_config ''k''"
  let ?d = "example_draws 30 ''s3''"
  let ?db' = "snd (refresh_access_token ?cfg ?d two_sessions ''s1'' None None True)"
  have f1: "fst (refresh_access_token ?cfg ?d two_sessions ''s1'' None None True)
              = Inr (TokenResponse
                       (create_access_token ?cfg 30 30
                          [(''sub'', Str ''1''), (''username'', Str ''alice'')] None) ''s3'')"
    by (simp add: run_defs example_defs2 Let_def str_int_def)
  then have ev: "refresh_access_token ?cfg ?d two_sessions ''s1'' None None True
              = (Inr (TokenResponse
                        (create_access_token ?cfg 30 30
                           [(''sub'', Str ''1''), (''username'', Str ''alice'')] None) ''s3''),
                 ?db')"
    by (simp add: prod_eq_iff)
  from rotation_is_single_use
         [OF ev, where ?cfg2.0 = ?cfg and ?d2.0 = "example_draws 50 ''s5''"
            and lib = example_library and cs = "[Logout ''s3'' 1]" and ?ua2.0 = None
            and ?ip2.0 = None and ?rot2.0 = True]
  have r1: "is_revoked_in ?db' ''s1''"
    and later: "refresh_access_token ?cfg (example_draws 50 ''s5'')
           (run_calls ?cfg example_library [Logout ''s3'' 1] ?db') ''s1'' None None True
         = (Inl (ValueError ''Refresh token has been revoked''),
            run_calls ?cfg example_library [Logout ''s3'' 1] ?db')"
    by blast+
  have f3: "fst (refresh_access_token ?cfg (example_draws 50 ''s5'')
           (run_calls ?cfg example_library [Logout ''s3'' 1] ?db') ''s1'' None None True)
         = Inl (ValueError ''Refresh token has been revoked'')"
    unfolding later by (rule fst_conv)
  have neq: "''s3'' \<noteq> ''s1''" by simp
  from f1 r1 neq f3 show ?thesis by (intro conjI)
qed

subsection \<open>The session limit\<close>




















end
